theory Spec2Isabelle
  imports Complex_Main "HOL-Library.Char_ord" "HOL-Library.AList"
begin

section \<open>Strings and regular expressions\<close>

text \<open>
  Source text is a list of characters; the model covers the code units below 256. The
  character classes are those of the JavaScript regular expressions: \<open>\s\<close> (which is
  also what \<open>trim\<close> strips), \<open>\w\<close>, the line terminators that \<open>$\<close> sees in
  multiline mode, and \<open>.\<close>.
\<close>

definition isSpace :: "char \<Rightarrow> bool" where
  "isSpace c \<longleftrightarrow> c \<in> {CHR 0x09, CHR 0x0A, CHR 0x0B, CHR 0x0C, CHR 0x0D, CHR 0x20, CHR 0xA0}"

definition isWord :: "char \<Rightarrow> bool" where
  "isWord c \<longleftrightarrow>
     (CHR ''a'' \<le> c \<and> c \<le> CHR ''z'') \<or> (CHR ''A'' \<le> c \<and> c \<le> CHR ''Z'') \<or>
     (CHR ''0'' \<le> c \<and> c \<le> CHR ''9'') \<or> c = CHR ''_''"

definition isLineTerminator :: "char \<Rightarrow> bool" where
  "isLineTerminator c \<longleftrightarrow> c = CHR 0x0A \<or> c = CHR 0x0D"

definition isDot :: "char \<Rightarrow> bool" where
  "isDot c \<longleftrightarrow> \<not> isLineTerminator c"

text \<open>
  The regular expressions of the repairs, as trees. Every quantifier of the source applies
  to a single character class: \<open>Many\<close> is a greedy \<open>*\<close>, \<open>Few\<close> a lazy
  \<open>*?\<close>, \<open>Maybe\<close> a greedy \<open>?\<close>; \<open>+\<close> is one character followed by
  \<open>*\<close>. \<open>InputStart\<close> and \<open>InputEnd\<close> are \<open>^\<close> and \<open>$\<close> without the
  \<open>m\<close> flag, \<open>LineEnd\<close> is \<open>$\<close> with it, \<open>WordBoundary\<close> is \<open>\b\<close>.
\<close>

datatype regex =
    Sat "char \<Rightarrow> bool"
  | Many "char \<Rightarrow> bool"
  | Few "char \<Rightarrow> bool"
  | Maybe "char \<Rightarrow> bool"
  | Seq regex regex
  | Alt regex regex
  | Group nat regex
  | InputStart
  | InputEnd
  | LineEnd
  | WordBoundary

text \<open>
  A matcher state is the text before the position (reversed), the text from the position
  on, and the capture groups set so far. \<open>ms r st\<close> lists the states in which a match
  of \<open>r\<close> from \<open>st\<close> can end, in the order a backtracking matcher tries them: the
  first one is the match that JavaScript reports.
\<close>

type_synonym captures = "nat \<rightharpoonup> string"
type_synonym mstate = "string \<times> string \<times> captures"

primrec manyGreedy :: "(char \<Rightarrow> bool) \<Rightarrow> string \<Rightarrow> string \<Rightarrow> (string \<times> string) list" where
  "manyGreedy p pre [] = [(pre, [])]"
| "manyGreedy p pre (c # cs) =
     (if p c then manyGreedy p (c # pre) cs @ [(pre, c # cs)] else [(pre, c # cs)])"

primrec fewLazy :: "(char \<Rightarrow> bool) \<Rightarrow> string \<Rightarrow> string \<Rightarrow> (string \<times> string) list" where
  "fewLazy p pre [] = [(pre, [])]"
| "fewLazy p pre (c # cs) =
     (pre, c # cs) # (if p c then fewLazy p (c # pre) cs else [])"

definition atBoundary :: "string \<Rightarrow> string \<Rightarrow> bool" where
  "atBoundary pre rest \<longleftrightarrow>
     (case pre of [] \<Rightarrow> False | a # _ \<Rightarrow> isWord a) \<noteq> (case rest of [] \<Rightarrow> False | b # _ \<Rightarrow> isWord b)"

fun ms :: "regex \<Rightarrow> mstate \<Rightarrow> mstate list" where
  "ms (Sat p) (pre, rest, caps) =
     (case rest of [] \<Rightarrow> [] | c # cs \<Rightarrow> if p c then [(c # pre, cs, caps)] else [])"
| "ms (Many p) (pre, rest, caps) = map (\<lambda>(pre', rest'). (pre', rest', caps)) (manyGreedy p pre rest)"
| "ms (Few p) (pre, rest, caps) = map (\<lambda>(pre', rest'). (pre', rest', caps)) (fewLazy p pre rest)"
| "ms (Maybe p) (pre, rest, caps) =
     (case rest of
        [] \<Rightarrow> [(pre, rest, caps)]
      | c # cs \<Rightarrow> if p c then [(c # pre, cs, caps), (pre, rest, caps)] else [(pre, rest, caps)])"
| "ms (Seq a b) st = concat (map (ms b) (ms a st))"
| "ms (Alt a b) st = ms a st @ ms b st"
| "ms (Group i r) (pre, rest, caps) =
     map (\<lambda>(pre', rest', caps'). (pre', rest', caps'(i \<mapsto> take (length rest - length rest') rest)))
       (ms r (pre, rest, caps))"
| "ms InputStart (pre, rest, caps) = (if pre = [] then [(pre, rest, caps)] else [])"
| "ms InputEnd (pre, rest, caps) = (if rest = [] then [(pre, rest, caps)] else [])"
| "ms LineEnd (pre, rest, caps) =
     (case rest of
        [] \<Rightarrow> [(pre, rest, caps)]
      | c # cs \<Rightarrow> if isLineTerminator c then [(pre, rest, caps)] else [])"
| "ms WordBoundary (pre, rest, caps) = (if atBoundary pre rest then [(pre, rest, caps)] else [])"

text \<open>A literal string, \<open>+\<close>, a sequence and an alternation of several parts.\<close>

definition lit :: "string \<Rightarrow> regex" where
  "lit s =
     (if s = [] then Many (\<lambda>c. False)
      else foldr (\<lambda>c r. Seq (Sat (\<lambda>d. d = c)) r) (butlast s) (Sat (\<lambda>d. d = last s)))"

definition many1 :: "(char \<Rightarrow> bool) \<Rightarrow> regex" where
  "many1 p = Seq (Sat p) (Many p)"

fun seqs :: "regex list \<Rightarrow> regex" where
  "seqs [r] = r"
| "seqs (r # rs) = Seq r (seqs rs)"
| "seqs [] = Many (\<lambda>c. False)"

fun alts :: "regex list \<Rightarrow> regex" where
  "alts [r] = r"
| "alts (r # rs) = Alt r (alts rs)"
| "alts [] = Sat (\<lambda>c. False)"

text \<open>
  A match at a given position; the leftmost match from a position on (\<open>exec\<close> on a
  fresh regular expression); \<open>test\<close>.
\<close>

definition matchAt :: "regex \<Rightarrow> string \<Rightarrow> string \<Rightarrow> mstate option" where
  "matchAt r pre rest = (case ms r (pre, rest, Map.empty) of [] \<Rightarrow> None | st # _ \<Rightarrow> Some st)"

fun search :: "regex \<Rightarrow> string \<Rightarrow> string \<Rightarrow> (string \<times> string \<times> mstate) option" where
  "search r pre rest =
     (case matchAt r pre rest of
        Some st \<Rightarrow> Some (pre, rest, st)
      | None \<Rightarrow> (case rest of [] \<Rightarrow> None | c # cs \<Rightarrow> search r (c # pre) cs))"

definition test :: "regex \<Rightarrow> string \<Rightarrow> bool" where
  "test r s = (search r [] s \<noteq> None)"

fun ngroups :: "regex \<Rightarrow> nat" where
  "ngroups (Seq a b) = ngroups a + ngroups b"
| "ngroups (Alt a b) = ngroups a + ngroups b"
| "ngroups (Group i r) = Suc (ngroups r)"
| "ngroups _ = 0"

definition isDigit :: "char \<Rightarrow> bool" where
  "isDigit c \<longleftrightarrow> CHR ''0'' \<le> c \<and> c \<le> CHR ''9''"

definition digitVal :: "char \<Rightarrow> nat" where
  "digitVal c = of_char c - 48"

definition capture :: "captures \<Rightarrow> nat \<Rightarrow> string" where
  "capture caps n = (case caps n of None \<Rightarrow> [] | Some s \<Rightarrow> s)"

text \<open>
  The replacement text of \<open>String.prototype.replace\<close>: \<open>$$\<close>, \<open>$&\<close>, \<open>$`\<close>,
  \<open>$'\<close> and the group references \<open>$n\<close>, \<open>$nn\<close>, where \<open>m\<close> is the number
  of groups of the expression. A group that did not take part counts as empty.
\<close>

fun substitute :: "nat \<Rightarrow> string \<Rightarrow> string \<Rightarrow> string \<Rightarrow> captures \<Rightarrow> string \<Rightarrow> string" where
  "substitute m leftPart matched rightPart caps [] = []"
| "substitute m leftPart matched rightPart caps [c] = [c]"
| "substitute m leftPart matched rightPart caps (c # d # t) =
     (if c \<noteq> CHR ''$'' then c # substitute m leftPart matched rightPart caps (d # t)
      else if d = CHR ''$'' then CHR ''$'' # substitute m leftPart matched rightPart caps t
      else if d = CHR ''&'' then matched @ substitute m leftPart matched rightPart caps t
      else if d = CHR 0x60 then leftPart @ substitute m leftPart matched rightPart caps t
      else if d = CHR 0x27 then rightPart @ substitute m leftPart matched rightPart caps t
      else if isDigit d then
        (case t of
           e # u \<Rightarrow>
             if isDigit e \<and> 1 \<le> 10 * digitVal d + digitVal e \<and> 10 * digitVal d + digitVal e \<le> m
             then capture caps (10 * digitVal d + digitVal e) @ substitute m leftPart matched rightPart caps u
             else if 1 \<le> digitVal d \<and> digitVal d \<le> m
             then capture caps (digitVal d) @ substitute m leftPart matched rightPart caps t
             else CHR ''$'' # substitute m leftPart matched rightPart caps (d # t)
         | [] \<Rightarrow>
             if 1 \<le> digitVal d \<and> digitVal d \<le> m
             then capture caps (digitVal d) @ substitute m leftPart matched rightPart caps t
             else CHR ''$'' # substitute m leftPart matched rightPart caps (d # t))
      else CHR ''$'' # substitute m leftPart matched rightPart caps (d # t))"

text \<open>
  \<open>s.replace(/r/g, tmpl)\<close>: every match, left to right, the search resuming where
  the match ended (after an empty match, one character further).
\<close>

fun replaceFrom :: "regex \<Rightarrow> string \<Rightarrow> string \<Rightarrow> string \<Rightarrow> string" where
  "replaceFrom r tmpl pre rest =
     (case matchAt r pre rest of
        None \<Rightarrow> (case rest of [] \<Rightarrow> [] | c # cs \<Rightarrow> c # replaceFrom r tmpl (c # pre) cs)
      | Some (pre', rest', caps) \<Rightarrow>
          substitute (ngroups r) (rev pre) (take (length rest - length rest') rest) rest' caps tmpl
          @ (if length rest' < length rest then replaceFrom r tmpl pre' rest'
             else (case rest of [] \<Rightarrow> [] | c # cs \<Rightarrow> c # replaceFrom r tmpl (c # pre) cs)))"

declare replaceFrom.simps [simp del]
declare search.simps [simp del]

definition replaceAll :: "regex \<Rightarrow> string \<Rightarrow> string \<Rightarrow> string" where
  "replaceAll r tmpl s = replaceFrom r tmpl [] s"

text \<open>\<open>join\<close>, \<open>split\<close> on a character, \<open>trim\<close>, \<open>startsWith\<close>, \<open>endsWith\<close>.\<close>

definition joinWith :: "string \<Rightarrow> string list \<Rightarrow> string" where
  "joinWith sep xs = (case xs of [] \<Rightarrow> [] | y # ys \<Rightarrow> y @ concat (map (\<lambda>z. sep @ z) ys))"

fun splitOn :: "char \<Rightarrow> string \<Rightarrow> string list" where
  "splitOn sep [] = [[]]"
| "splitOn sep (c # cs) =
     (if c = sep then [] # splitOn sep cs
      else (case splitOn sep cs of l # ls \<Rightarrow> (c # l) # ls | [] \<Rightarrow> [[c]]))"

definition trimStart :: "string \<Rightarrow> string" where
  "trimStart s = dropWhile isSpace s"

definition trimEnd :: "string \<Rightarrow> string" where
  "trimEnd s = rev (dropWhile isSpace (rev s))"

definition trim :: "string \<Rightarrow> string" where
  "trim s = trimEnd (trimStart s)"

definition startsWith :: "string \<Rightarrow> string \<Rightarrow> bool" where
  "startsWith s p \<longleftrightarrow> take (length p) s = p"

definition endsWith :: "string \<Rightarrow> string \<Rightarrow> bool" where
  "endsWith s p \<longleftrightarrow> length p \<le> length s \<and> drop (length s - length p) s = p"

definition nl :: string where "nl = [CHR 0x0A]"

definition oneOf :: "string \<Rightarrow> char \<Rightarrow> bool" where
  "oneOf cs c \<longleftrightarrow> c \<in> set cs"

definition noneOf :: "string \<Rightarrow> char \<Rightarrow> bool" where
  "noneOf cs c \<longleftrightarrow> c \<notin> set cs"

text \<open>
  The loop \<open>while ((match = r.exec(s)) !== null)\<close> over a global expression: all
  matches, left to right. (The expressions it is used with cannot match the empty
  string.)
\<close>

fun allMatchesFrom :: "regex \<Rightarrow> string \<Rightarrow> string \<Rightarrow> (string \<times> string \<times> mstate) list" where
  "allMatchesFrom r pre rest =
     (case matchAt r pre rest of
        None \<Rightarrow> (case rest of [] \<Rightarrow> [] | c # cs \<Rightarrow> allMatchesFrom r (c # pre) cs)
      | Some (pre', rest', caps) \<Rightarrow>
          (pre, rest, (pre', rest', caps))
          # (if length rest' < length rest then allMatchesFrom r pre' rest' else []))"

declare allMatchesFrom.simps [simp del]

definition allMatches :: "regex \<Rightarrow> string \<Rightarrow> (string \<times> string \<times> mstate) list" where
  "allMatches r s = allMatchesFrom r [] s"

text \<open>
  Node's \<open>path.basename\<close> and \<open>path.extname\<close>, in their POSIX form: the last
  component of the path, trailing slashes ignored; the extension runs from the last dot
  of that component, unless the dot is its first character or the component is \<open>..\<close>.
\<close>

definition lastComponent :: "string \<Rightarrow> string" where
  "lastComponent p =
     rev (takeWhile (\<lambda>c. c \<noteq> CHR ''/'') (dropWhile (\<lambda>c. c = CHR ''/'') (rev p)))"

definition extname :: "string \<Rightarrow> string" where
  "extname p =
     (let base = lastComponent p;
          ext = rev (takeWhile (\<lambda>c. c \<noteq> CHR ''.'') (rev base))
      in if CHR ''.'' \<notin> set base \<or> length ext + 1 = length base \<or> base = ''..'' then []
         else CHR ''.'' # ext)"

definition basename :: "string \<Rightarrow> string" where
  "basename p = lastComponent p"

definition basenameWithout :: "string \<Rightarrow> string \<Rightarrow> string" where
  "basenameWithout p ext =
     (let base = lastComponent p
      in if ext \<noteq> [] \<and> length ext \<le> length p \<and> ext = p then []
         else if ext \<noteq> [] \<and> length ext < length base \<and> endsWith base ext
         then take (length base - length ext) base
         else base)"

text \<open>\<open>toLowerCase\<close>, on the code units below 256\<close>

definition toLowerChar :: "char \<Rightarrow> char" where
  "toLowerChar c =
     (let n = (of_char c :: nat)
      in if (65 \<le> n \<and> n \<le> 90) \<or> (192 \<le> n \<and> n \<le> 222 \<and> n \<noteq> 215) then char_of (n + 32) else c)"

definition toLowerCase :: "string \<Rightarrow> string" where
  "toLowerCase s = map toLowerChar s"

text \<open>
  What a match can tell: the characters an expression may consume, the groups it may set,
  and the relation between the state before and the state after a match that consumed
  \<open>w\<close>.
\<close>

fun consumes :: "regex \<Rightarrow> char \<Rightarrow> bool" where
  "consumes (Sat p) c = p c"
| "consumes (Many p) c = p c"
| "consumes (Few p) c = p c"
| "consumes (Maybe p) c = p c"
| "consumes (Seq a b) c = (consumes a c \<or> consumes b c)"
| "consumes (Alt a b) c = (consumes a c \<or> consumes b c)"
| "consumes (Group i r) c = consumes r c"
| "consumes _ c = False"

fun groupIds :: "regex \<Rightarrow> nat set" where
  "groupIds (Seq a b) = groupIds a \<union> groupIds b"
| "groupIds (Alt a b) = groupIds a \<union> groupIds b"
| "groupIds (Group i r) = insert i (groupIds r)"
| "groupIds _ = {}"

definition span :: "mstate \<Rightarrow> mstate \<Rightarrow> string \<Rightarrow> bool" where
  "span st st' w \<longleftrightarrow> fst (snd st) = w @ fst (snd st') \<and> fst st' = rev w @ fst st"

definition sound :: "regex \<Rightarrow> mstate \<Rightarrow> mstate \<Rightarrow> string \<Rightarrow> bool" where
  "sound r st st' w \<longleftrightarrow>
     span st st' w \<and> (\<forall>c \<in> set w. consumes r c) \<and>
     (\<forall>i. i \<notin> groupIds r \<longrightarrow> snd (snd st') i = snd (snd st) i) \<and>
     (\<forall>i s. snd (snd st') i = Some s \<longrightarrow> snd (snd st) i = Some s \<or> (\<forall>c \<in> set s. consumes r c))"

section \<open>Syntax repair: \<open>attemptSyntaxFix\<close> and \<open>smartFix\<close>\<close>

text \<open>
  The descriptors that \<open>attemptSyntaxFix\<close> pushes on \<open>result.fixes\<close>, and its result.
  The content handed in is a string, or some other value (\<open>undefined\<close>, \<open>null\<close>, a
  number), which has no \<open>split\<close> and no \<open>replace\<close> method.
\<close>

datatype fix_descriptor =
    IncompleteObjectDeclaration
  | MissingSemicolon nat string string
  | MissingComma
  | IncompleteType
  | MissingClosingBrace nat
  | MissingClosingParen nat
  | MissingClosingBracket nat

datatype js_value = Text string | NotText

record fix_result =
  fixed :: bool
  content :: js_value
  errors :: "string list"
  fixList :: "fix_descriptor list"
  shouldCommit :: bool

text \<open>\<open>['javascript', 'typescript'].includes(language)\<close>\<close>

definition isScript :: "string \<Rightarrow> bool" where
  "isScript language \<longleftrightarrow> language = ''javascript'' \<or> language = ''typescript''"

text \<open>
  Fix 1: \<open>/export\s+(const|let|var)\s+(\w+)\s*=\s*\n\s*async\s+(\w+)/g\<close>, replaced by
  \<open>'export $1 $2 = {\n  async $3'\<close>. Each step returns the content, the descriptors it
  pushed and its contribution to \<open>wasFixed\<close>.
\<close>

definition declKeyword :: regex where
  "declKeyword = alts [lit ''const'', lit ''let'', lit ''var'']"

definition incompleteObjectPattern :: regex where
  "incompleteObjectPattern =
     seqs [lit ''export'', many1 isSpace, Group 1 declKeyword, many1 isSpace, Group 2 (many1 isWord),
           Many isSpace, lit ''='', Many isSpace, lit nl, Many isSpace, lit ''async'', many1 isSpace,
           Group 3 (many1 isWord)]"

definition objectReplacement :: string where
  "objectReplacement = ''export $1 $2 = {'' @ nl @ ''  async $3''"

definition fixIncompleteObject :: "string \<Rightarrow> string \<times> fix_descriptor list \<times> bool" where
  "fixIncompleteObject fixedContent =
     (if test incompleteObjectPattern fixedContent
      then (replaceAll incompleteObjectPattern objectReplacement fixedContent,
            [IncompleteObjectDeclaration], True)
      else (fixedContent, [], False))"

text \<open>
  Fix 2, the semicolon pass. Its tests on the trimmed line: \<open>/[;{}\])]$/\<close>,
  \<open>/[=,]$/\<close>, \<open>/^export\s+(const|let|var)\s+\w+\s*=$/\<close>,
  \<open>/^(import|export|return|throw|break|continue|type|interface)\s+/\<close> and
  \<open>/^(const|let|var)\s+\w+\s*=\s*.+[^=,]$/\<close>.
\<close>

definition endsClosed :: regex where
  "endsClosed = seqs [Sat (oneOf '';{}])''), InputEnd]"

definition endsOpen :: regex where
  "endsOpen = seqs [Sat (oneOf ''=,''), InputEnd]"

definition exportAssignment :: regex where
  "exportAssignment =
     seqs [InputStart, lit ''export'', many1 isSpace, Group 1 declKeyword, many1 isSpace, many1 isWord,
           Many isSpace, lit ''='', InputEnd]"

definition needsSemicolon :: regex where
  "needsSemicolon =
     seqs [InputStart,
           Group 1 (alts [lit ''import'', lit ''export'', lit ''return'', lit ''throw'', lit ''break'',
                          lit ''continue'', lit ''type'', lit ''interface'']),
           many1 isSpace]"

definition isCompleteStatement :: regex where
  "isCompleteStatement =
     seqs [InputStart, Group 1 declKeyword, many1 isSpace, many1 isWord, Many isSpace, lit ''='',
           Many isSpace, many1 isDot, Sat (noneOf ''=,''), InputEnd]"

text \<open>The callback of \<open>lines.map\<close>, for the line at \<open>index\<close> and the trimmed next
  line (empty after the last line).\<close>

definition semicolonLine :: "nat \<Rightarrow> string \<Rightarrow> string \<Rightarrow> string \<times> fix_descriptor list" where
  "semicolonLine index line nextLine =
     (let trimmed = trim line in
      if trimmed = [] \<or> startsWith trimmed ''//'' \<or> startsWith trimmed ''/*'' \<or>
         startsWith trimmed ''*'' \<or> test endsClosed trimmed
      then (line, [])
      else if test endsOpen trimmed \<or> test exportAssignment trimmed
      then (line, [])
      else if startsWith nextLine ''async '' \<or> startsWith nextLine ''function ''
      then (line, [])
      else if (test needsSemicolon trimmed \<or> test isCompleteStatement trimmed) \<and>
              \<not> endsWith trimmed '';''
      then (line @ '';'', [MissingSemicolon (index + 1) line (line @ '';'')])
      else (line, []))"

fun semicolonLines :: "nat \<Rightarrow> string list \<Rightarrow> string list \<times> fix_descriptor list" where
  "semicolonLines index [] = ([], [])"
| "semicolonLines index (line # lines) =
     (let nextLine = (case lines of [] \<Rightarrow> [] | l # _ \<Rightarrow> trim l);
          (line', fx) = semicolonLine index line nextLine;
          (lines', fxs) = semicolonLines (index + 1) lines
      in (line' # lines', fx @ fxs))"

text \<open>The lines are joined again only \<open>if (wasFixed)\<close>, a flag that fix 1 may have set.\<close>

definition fixSemicolons :: "bool \<Rightarrow> string \<Rightarrow> string \<times> fix_descriptor list \<times> bool" where
  "fixSemicolons wasFixed fixedContent =
     (let (fixedLines, fxs) = semicolonLines 0 (splitOn (CHR 0x0A) fixedContent);
          wasFixed' = (wasFixed \<or> fxs \<noteq> [])
      in (if wasFixed' then joinWith nl fixedLines else fixedContent, fxs, wasFixed'))"

text \<open>
  Fix 3: \<open>/}\s*,?\s*\n\s*async\s+(\w+)/g\<close>, replaced by \<open>'},\n  async $1'\<close> without
  touching \<open>wasFixed\<close>, then \<open>/(\w+:\s*[^,\n]+)\s*\n\s*(\w+:)/g\<close>, replaced by
  \<open>'$1,\n$2'\<close>.
\<close>

definition missingCommaBeforeMethod :: regex where
  "missingCommaBeforeMethod =
     seqs [lit ''}'', Many isSpace, Maybe (oneOf '',''), Many isSpace, lit nl, Many isSpace,
           lit ''async'', many1 isSpace, Group 1 (many1 isWord)]"

definition missingCommaPattern :: regex where
  "missingCommaPattern =
     seqs [Group 1 (seqs [many1 isWord, lit '':'', Many isSpace, many1 (noneOf ('','' @ nl))]),
           Many isSpace, lit nl, Many isSpace,
           Group 2 (seqs [many1 isWord, lit '':''])]"

definition methodReplacement :: string where
  "methodReplacement = ''},'' @ nl @ ''  async $1''"

definition propertyReplacement :: string where
  "propertyReplacement = ''$1,'' @ nl @ ''$2''"

definition fixCommas :: "string \<Rightarrow> string \<times> fix_descriptor list \<times> bool" where
  "fixCommas fixedContent =
     (let c1 = replaceAll missingCommaBeforeMethod methodReplacement fixedContent
      in if test missingCommaPattern c1
         then (replaceAll missingCommaPattern propertyReplacement c1, [MissingComma], True)
         else (c1, [], False))"

text \<open>TypeScript only: \<open>/:\s*$/gm\<close>, replaced by \<open>': any'\<close>.\<close>

definition incompleteTypes :: regex where
  "incompleteTypes = seqs [lit '':'', Many isSpace, LineEnd]"

definition fixTypes :: "string \<Rightarrow> string \<times> fix_descriptor list \<times> bool" where
  "fixTypes fixedContent =
     (if test incompleteTypes fixedContent
      then (replaceAll incompleteTypes '': any'' fixedContent, [IncompleteType], True)
      else (fixedContent, [], False))"

text \<open>Fix 5: \<open>/,(\s*}\s*;?\s*)$/gm\<close>, replaced by \<open>'$1'\<close>, for every language.\<close>

definition trailingCommaBeforeBrace :: regex where
  "trailingCommaBeforeBrace =
     seqs [lit '','', Group 1 (seqs [Many isSpace, lit ''}'', Many isSpace, Maybe (oneOf '';''), Many isSpace]),
           LineEnd]"

text \<open>Fixes 1 to 5 in the order of the source: everything before the bracket balance.\<close>

definition beforeBalance :: "string \<Rightarrow> string \<Rightarrow> string \<times> fix_descriptor list \<times> bool" where
  "beforeBalance language content0 =
     (let (c1, f1, w1) = (if isScript language then fixIncompleteObject content0 else (content0, [], False));
          (c2, f2, w2) = (if isScript language then fixSemicolons w1 c1 else (c1, [], w1));
          (c3, f3, w3) = (if isScript language then fixCommas c2 else (c2, [], False));
          (c4, f4, w4) = (if language = ''typescript'' then fixTypes c3 else (c3, [], False));
          c5 = replaceAll trailingCommaBeforeBrace ''$1'' c4
      in (c5, f1 @ f2 @ f3 @ f4, w2 \<or> w3 \<or> w4))"

text \<open>
  Fix 6, the bracket balance. When braces are missing and the last non-empty line is
  \<open>}\<close> or \<open>},\<close> (\<open>/^},?$/\<close>), a single \<open>};\<close> is appended to the
  right-trimmed content; otherwise the deficit of \<open>}\<close> is appended on a new line. The
  six counts are taken before anything is appended.
\<close>

definition closingLine :: regex where
  "closingLine = seqs [InputStart, lit ''}'', Maybe (oneOf '',''), InputEnd]"

definition smartClosing :: "string \<Rightarrow> bool" where
  "smartClosing fixedContent =
     (let lastNonEmptyLine = last (splitOn (CHR 0x0A) (trim fixedContent))
      in lastNonEmptyLine \<noteq> [] \<and> test closingLine (trim lastNonEmptyLine))"

definition balanceBraces :: "string \<Rightarrow> string \<times> fix_descriptor list \<times> bool" where
  "balanceBraces fixedContent =
     (let openBraces = count_list fixedContent (CHR ''{'');
          closeBraces = count_list fixedContent (CHR ''}'')
      in if openBraces > closeBraces
         then (if smartClosing fixedContent then trimEnd fixedContent @ nl @ ''};''
               else fixedContent @ nl @ replicate (openBraces - closeBraces) (CHR ''}''),
               [MissingClosingBrace (openBraces - closeBraces)], True)
         else (fixedContent, [], False))"

definition balanceBrackets :: "string \<Rightarrow> string \<times> fix_descriptor list \<times> bool" where
  "balanceBrackets fixedContent =
     (let openParens = count_list fixedContent (CHR ''('');
          closeParens = count_list fixedContent (CHR '')'');
          openBrackets = count_list fixedContent (CHR ''['');
          closeBrackets = count_list fixedContent (CHR '']'');
          (c1, f1, w1) = balanceBraces fixedContent;
          (c2, f2, w2) =
            (if openParens > closeParens
             then (c1 @ replicate (openParens - closeParens) (CHR '')''),
                   [MissingClosingParen (openParens - closeParens)], True)
             else (c1, [], False));
          (c3, f3, w3) =
            (if openBrackets > closeBrackets
             then (c2 @ replicate (openBrackets - closeBrackets) (CHR '']''),
                   [MissingClosingBracket (openBrackets - closeBrackets)], True)
             else (c2, [], False))
      in (c3, f1 @ f2 @ f3, w1 \<or> w2 \<or> w3))"

text \<open>The last cleanup: \<open>/,(\s*[}\]])/g\<close>, replaced by \<open>'$1'\<close>.\<close>

definition trailingComma :: regex where
  "trailingComma = seqs [lit '','', Group 1 (seqs [Many isSpace, Sat (oneOf ''}]'')])]"

text \<open>The body of the \<open>try\<close> block, for a string.\<close>

definition syntaxFixSteps :: "string \<Rightarrow> string \<Rightarrow> string \<times> fix_descriptor list \<times> bool" where
  "syntaxFixSteps language content0 =
     (let (c5, f5, w5) = beforeBalance language content0;
          (c6, f6, w6) = balanceBrackets c5
      in (replaceAll trailingComma ''$1'' c6, f5 @ f6, w5 \<or> w6))"

text \<open>
  \<open>attemptSyntaxFix\<close>. On a value that is not a string the first method call of the
  body throws a \<open>TypeError\<close>, before anything is pushed; the \<open>catch\<close> records the
  message and the initial \<open>result\<close> is returned.
\<close>

definition attemptSyntaxFix :: "js_value \<Rightarrow> string \<Rightarrow> string \<Rightarrow> fix_result" where
  "attemptSyntaxFix content0 filePath language =
     (case (case content0 of Text s \<Rightarrow> Inr (syntaxFixSteps language s) | NotText \<Rightarrow> Inl ''TypeError'') of
        Inr (fixedContent, fxs, wasFixed) \<Rightarrow>
          \<lparr>fixed = wasFixed, content = Text fixedContent, errors = [], fixList = fxs, shouldCommit = wasFixed\<rparr>
      | Inl message \<Rightarrow>
          \<lparr>fixed = False, content = content0, errors = [message], fixList = [], shouldCommit = False\<rparr>)"

text \<open>\<open>smartFix\<close> picks the language from the file name; what it detects first is only logged.\<close>

definition smartFix :: "js_value \<Rightarrow> string \<Rightarrow> fix_result" where
  "smartFix content0 filePath =
     attemptSyntaxFix content0 filePath
       (if endsWith filePath ''.ts'' \<or> endsWith filePath ''.tsx'' then ''typescript'' else ''javascript'')"

text \<open>
  Notions for the theorems: the six bracket characters, the content after fixes 1 to 5,
  the number of closing braces that fix 6 appends to it, the returned content, and the
  descriptors of appended parentheses and square brackets.
\<close>

definition isBracket :: "char \<Rightarrow> bool" where
  "isBracket c \<longleftrightarrow> c \<in> set ''{}()[]''"

definition preBalance :: "string \<Rightarrow> string \<Rightarrow> string" where
  "preBalance language s = fst (beforeBalance language s)"

definition bracesAdded :: "string \<Rightarrow> nat" where
  "bracesAdded f =
     (if count_list f (CHR ''{'') > count_list f (CHR ''}'')
      then (if smartClosing f then 1 else count_list f (CHR ''{'') - count_list f (CHR ''}''))
      else 0)"

definition repaired :: "string \<Rightarrow> string \<Rightarrow> string" where
  "repaired language s = fst (syntaxFixSteps language s)"

definition isClosingFix :: "fix_descriptor \<Rightarrow> bool" where
  "isClosingFix d = (case d of MissingClosingParen n \<Rightarrow> True | MissingClosingBracket n \<Rightarrow> True | _ \<Rightarrow> False)"

text \<open>Parts of the two comma expressions.\<close>

definition afterBrace :: regex where
  "afterBrace = seqs [Many isSpace, Maybe (oneOf '',''), Many isSpace, lit nl, Many isSpace,
                      lit ''async'', many1 isSpace, Group 1 (many1 isWord)]"

definition propertyValue :: regex where
  "propertyValue = seqs [many1 isWord, lit '':'', Many isSpace, many1 (noneOf ('','' @ nl))]"

definition propertyKey :: regex where
  "propertyKey = seqs [many1 isWord, lit '':'']"

text \<open>Examples: three properties without commas, three open braces closed once, and a
  call with an open parenthesis and an open bracket inside a block.\<close>

definition threeProps :: string where
  "threeProps = ''a: 1'' @ nl @ ''b: 2'' @ nl @ ''c: 3''"

definition threeBraces :: string where
  "threeBraces = ''{{{'' @ nl @ ''}''"

definition openCall :: string where
  "openCall = ''{ f(1, [2''"

text \<open>A call left open inside three braces of which one is closed, and what a first
  repair returns for it.\<close>

definition nestedCall :: string where
  "nestedCall = ''{{{ f(1'' @ nl @ ''}''"

definition nestedCallOnce :: string where
  "nestedCallOnce = ''{{{ f(1'' @ nl @ ''}'' @ nl @ ''};)''"

section \<open>Naming repair: \<open>detectExportNameTypos\<close> and \<open>semanticFix\<close>\<close>

text \<open>
  The Levenshtein distance of \<open>stringSimilarity\<close>: the matrix is filled row by row,
  one row for each character of \<open>s2\<close>; \<open>prevRow\<close> is the row above.
\<close>

fun rowStep :: "char \<Rightarrow> string \<Rightarrow> nat list \<Rightarrow> nat \<Rightarrow> nat list" where
  "rowStep c2 (c1 # s1) (diag # up # prevRow) left =
     (let v = min (left + 1) (min (up + 1) (diag + (if c1 = c2 then 0 else 1)))
      in v # rowStep c2 s1 (up # prevRow) v)"
| "rowStep c2 s1 prevRow left = []"

fun rows :: "string \<Rightarrow> nat \<Rightarrow> string \<Rightarrow> nat list \<Rightarrow> nat list" where
  "rows s1 j [] prevRow = prevRow"
| "rows s1 j (c2 # s2) prevRow = rows s1 (j + 1) s2 (j # rowStep c2 s1 prevRow j)"

definition levenshtein :: "string \<Rightarrow> string \<Rightarrow> nat" where
  "levenshtein s1 s2 = last (rows s1 1 s2 [0 ..< length s1 + 1])"

text \<open>
  \<open>stringSimilarity\<close>. The source computes \<open>1 - distance / maxLen\<close> in floating
  point and compares it with \<open>0.5\<close> and \<open>0.7\<close>; for strings of any realistic
  length the rounded comparison agrees with the exact one, which is what the model
  computes.
\<close>

definition stringSimilarity :: "string \<Rightarrow> string \<Rightarrow> rat" where
  "stringSimilarity str1 str2 =
     (let s1 = toLowerCase str1; s2 = toLowerCase str2
      in if s1 = s2 then 1
         else 1 - of_nat (levenshtein s1 s2) / of_nat (max (length s1) (length s2)))"

text \<open>
  What \<open>detectExportNameTypos\<close> works with: the typos it reports, the export
  declarations it finds in the file, and the import statements of the other files that
  refer to the file.
\<close>

datatype confidence = Low | Medium | High

record typo =
  typo_line :: nat
  original :: string
  suggested :: string
  reason :: string
  confidence :: confidence
  importedIn :: string

record export_decl =
  exp_name :: string
  exp_line :: nat
  exp_match :: string

record import_attempt =
  att_filePath :: string
  importedNames :: "string list"
  importStatement :: string

record source_file =
  sf_path :: string
  sf_content :: string

text \<open>\<open>/export\s+(?:const|let|var|class|function|interface|type)\s+(\w+)/g\<close>\<close>

definition exportKeyword :: regex where
  "exportKeyword = alts [lit ''const'', lit ''let'', lit ''var'', lit ''class'', lit ''function'',
                         lit ''interface'', lit ''type'']"

definition exportPattern :: regex where
  "exportPattern = seqs [lit ''export'', many1 isSpace, exportKeyword, many1 isSpace, Group 1 (many1 isWord)]"

text \<open>One entry for each match: the name, the line of the match (the number of line
  breaks before it, plus one) and the matched text.\<close>

definition findExports :: "string \<Rightarrow> export_decl list" where
  "findExports content0 =
     map (\<lambda>(pre, rest, (pre', rest', caps)).
            \<lparr>exp_name = capture caps 1,
             exp_line = length (splitOn (CHR 0x0A) (rev pre)),
             exp_match = take (length rest - length rest') rest\<rparr>)
       (allMatches exportPattern content0)"

text \<open>\<open>/import\s+(?:{([^}]+)}|\*\s+as\s+(\w+)|(\w+))\s+from\s+['"](.*?)['"]/g\<close>\<close>

definition isQuote :: "char \<Rightarrow> bool" where
  "isQuote c \<longleftrightarrow> c = CHR 0x27 \<or> c = CHR 0x22"

definition importPattern :: regex where
  "importPattern =
     seqs [lit ''import'', many1 isSpace,
           alts [seqs [lit ''{'', Group 1 (many1 (noneOf ''}'')), lit ''}''],
                 seqs [lit ''*'', many1 isSpace, lit ''as'', many1 isSpace, Group 2 (many1 isWord)],
                 Group 3 (many1 isWord)],
           many1 isSpace, lit ''from'', many1 isSpace,
           Sat isQuote, Group 4 (Few isDot), Sat isQuote]"

text \<open>\<open>String.prototype.includes\<close>\<close>

fun isPrefixOf :: "string \<Rightarrow> string \<Rightarrow> bool" where
  "isPrefixOf [] s = True"
| "isPrefixOf (p # ps) [] = False"
| "isPrefixOf (p # ps) (c # cs) = (p = c \<and> isPrefixOf ps cs)"

fun includesStr :: "string \<Rightarrow> string \<Rightarrow> bool" where
  "includesStr [] needle = (needle = [])"
| "includesStr (c # cs) needle = (isPrefixOf needle (c # cs) \<or> includesStr cs needle)"

text \<open>\<open>s.split(sep)[0]\<close>\<close>

fun beforeSeparator :: "string \<Rightarrow> string \<Rightarrow> string" where
  "beforeSeparator sep [] = []"
| "beforeSeparator sep (c # cs) = (if isPrefixOf sep (c # cs) then [] else c # beforeSeparator sep cs)"

text \<open>
  \<open>importedNamesStr.split(',').map(n => n.trim().split(' as ')[0].trim())\<close>, and
  \<open>match[1] || match[2] || match[3]\<close>.
\<close>

definition parseImportedNames :: "string \<Rightarrow> string list" where
  "parseImportedNames importedNamesStr =
     (if importedNamesStr = [] then []
      else map (\<lambda>n. trim (beforeSeparator '' as '' (trim n))) (splitOn (CHR '','') importedNamesStr))"

definition firstTruthy :: "captures \<Rightarrow> string" where
  "firstTruthy caps =
     (if capture caps 1 \<noteq> [] then capture caps 1
      else if capture caps 2 \<noteq> [] then capture caps 2
      else capture caps 3)"

text \<open>\<open>findImportAttempts\<close>: the import statements of one file whose source contains
  the target's base name, then those of all files but the target itself.\<close>

definition importsOfFile :: "string \<Rightarrow> source_file \<Rightarrow> import_attempt list" where
  "importsOfFile targetFilePath file =
     (let targetFileName = basenameWithout targetFilePath (extname targetFilePath)
      in concat (map (\<lambda>(pre, rest, (pre', rest', caps)).
            (let importPath = capture caps 4
             in if includesStr importPath targetFileName \<or> includesStr importPath (basename targetFilePath)
                then [\<lparr>att_filePath = sf_path file,
                       importedNames = parseImportedNames (firstTruthy caps),
                       importStatement = take (length rest - length rest') rest\<rparr>]
                else []))
          (allMatches importPattern (sf_content file))))"

definition findImportAttempts :: "string \<Rightarrow> source_file list \<Rightarrow> import_attempt list" where
  "findImportAttempts targetFilePath allFiles =
     concat (map (\<lambda>file. if sf_path file = targetFilePath then [] else importsOfFile targetFilePath file)
               allFiles)"

text \<open>
  The two kinds of typo that the loop pushes, and the body of the innermost loop: the
  high-confidence rule, then the medium-confidence one.
\<close>

definition quoted :: "string \<Rightarrow> string" where
  "quoted s = [CHR 0x22] @ s @ [CHR 0x22]"

definition highTypo :: "string \<Rightarrow> export_decl \<Rightarrow> import_attempt \<Rightarrow> string \<Rightarrow> typo" where
  "highTypo fileName decl attempt importedName =
     \<lparr>typo_line = exp_line decl, original = exp_name decl, suggested = importedName,
      reason = ''Export name '' @ quoted (exp_name decl) @ '' doesn't match import '' @ quoted importedName
               @ '' which is closer to file name '' @ quoted fileName,
      confidence = High, importedIn = att_filePath attempt\<rparr>"

definition mediumTypo :: "string \<Rightarrow> export_decl \<Rightarrow> import_attempt \<Rightarrow> string \<Rightarrow> typo" where
  "mediumTypo fileName decl attempt importedName =
     \<lparr>typo_line = exp_line decl, original = exp_name decl, suggested = fileName,
      reason = ''Export name '' @ quoted (exp_name decl) @ '' appears to be a typo. File name is ''
               @ quoted fileName @ '' and imported as '' @ quoted importedName,
      confidence = Medium, importedIn = att_filePath attempt\<rparr>"

definition checkImportedName :: "string \<Rightarrow> export_decl \<Rightarrow> import_attempt \<Rightarrow> string \<Rightarrow> typo list" where
  "checkImportedName fileName decl attempt importedName =
     (let nameSim = stringSimilarity (exp_name decl) importedName;
          importFilenameSim = stringSimilarity importedName fileName
      in (if nameSim < 1 / 2 \<and> importFilenameSim > 7 / 10
          then [highTypo fileName decl attempt importedName] else [])
         @ (if length (exp_name decl) \<le> 5 \<and> exp_name decl = toLowerCase (exp_name decl) \<and>
               length fileName > 5 \<and> fileName \<noteq> toLowerCase fileName \<and>
               stringSimilarity importedName fileName > 7 / 10
            then [mediumTypo fileName decl attempt importedName] else []))"

text \<open>The three nested loops: exports, import attempts, imported names.\<close>

definition flagTypos :: "string \<Rightarrow> export_decl list \<Rightarrow> import_attempt list \<Rightarrow> typo list" where
  "flagTypos fileName exports importAttempts =
     concat (map (\<lambda>decl.
       concat (map (\<lambda>attempt.
         concat (map (checkImportedName fileName decl attempt) (importedNames attempt)))
       importAttempts))
     exports)"

text \<open>
  The removal of duplicates: a \<open>Map\<close> keyed by \<open>typo.original + typo.suggested\<close>, in
  which a typo replaces the entry of its key only if its confidence is higher.
\<close>

definition confidenceOrder :: "confidence \<Rightarrow> nat" where
  "confidenceOrder c = (case c of High \<Rightarrow> 3 | Medium \<Rightarrow> 2 | Low \<Rightarrow> 1)"

definition keepBest :: "(string \<times> typo) list \<Rightarrow> typo \<Rightarrow> (string \<times> typo) list" where
  "keepBest typoMap t =
     (let key = original t @ suggested t
      in case map_of typoMap key of
           None \<Rightarrow> AList.update key t typoMap
         | Some existing \<Rightarrow>
             if confidenceOrder (confidence t) > confidenceOrder (confidence existing)
             then AList.update key t typoMap else typoMap)"

definition detectExportNameTypos :: "string \<Rightarrow> string \<Rightarrow> source_file list \<Rightarrow> typo list" where
  "detectExportNameTypos content0 filePath allFiles =
     (let exports = findExports content0
      in if exports = [] then []
         else map snd (foldl keepBest []
                (flagTypos (basenameWithout filePath (extname filePath)) exports
                   (findImportAttempts filePath allFiles))))"

text \<open>
  \<open>applySemanticFixes\<close>: the typos sorted by descending line (a stable sort), the
  high-confidence ones applied in turn with
  \<open>new RegExp(`(export\s+(?:const|...|type)\s+)${typo.original}\b`, 'g')\<close> and the
  replacement \<open>`$1${typo.suggested}`\<close>. The original name comes from \<open>(\w+)\<close>, so
  it stands for itself in the expression.
\<close>

fun insertByLine :: "typo \<Rightarrow> typo list \<Rightarrow> typo list" where
  "insertByLine t [] = [t]"
| "insertByLine t (u # us) = (if typo_line t < typo_line u then u # insertByLine t us else t # u # us)"

definition sortByLineDesc :: "typo list \<Rightarrow> typo list" where
  "sortByLineDesc ts = foldr insertByLine ts []"

record semantic_fix =
  sfix_line :: nat
  sfix_original :: string
  sfix_fixed :: string
  sfix_reason :: string

definition renamePattern :: "string \<Rightarrow> regex" where
  "renamePattern name =
     seqs [Group 1 (seqs [lit ''export'', many1 isSpace, exportKeyword, many1 isSpace]), lit name, WordBoundary]"

definition applyTypo :: "string \<times> semantic_fix list \<Rightarrow> typo \<Rightarrow> string \<times> semantic_fix list" where
  "applyTypo acc t =
     (case acc of (fixedContent, appliedFixes) \<Rightarrow>
        if confidence t = High
        then (let after = replaceAll (renamePattern (original t)) (''$1'' @ suggested t) fixedContent
              in if after \<noteq> fixedContent
                 then (after, appliedFixes @ [\<lparr>sfix_line = typo_line t, sfix_original = original t,
                                              sfix_fixed = suggested t, sfix_reason = reason t\<rparr>])
                 else (after, appliedFixes))
        else (fixedContent, appliedFixes))"

record apply_result =
  ar_fixed :: bool
  ar_content :: string
  ar_fixes :: "semantic_fix list"

definition applySemanticFixes :: "string \<Rightarrow> string \<Rightarrow> typo list \<Rightarrow> apply_result" where
  "applySemanticFixes content0 filePath typos =
     (case foldl applyTypo (content0, []) (sortByLineDesc typos) of
        (fixedContent, appliedFixes) \<Rightarrow>
          \<lparr>ar_fixed = (length appliedFixes > 0), ar_content = fixedContent, ar_fixes = appliedFixes\<rparr>)"

text \<open>\<open>semanticFix\<close>\<close>

record semantic_result =
  sr_fixed :: bool
  sr_content :: string
  sr_fixes :: "semantic_fix list"
  sr_shouldCommit :: bool

definition semanticFix :: "string \<Rightarrow> string \<Rightarrow> source_file list \<Rightarrow> semantic_result" where
  "semanticFix content0 filePath allFiles =
     (let typos = detectExportNameTypos content0 filePath allFiles;
          unchanged = \<lparr>sr_fixed = False, sr_content = content0, sr_fixes = [], sr_shouldCommit = False\<rparr>
      in if length typos > 0
         then (let result = applySemanticFixes content0 filePath typos
               in if ar_fixed result
                  then \<lparr>sr_fixed = True, sr_content = ar_content result, sr_fixes = ar_fixes result,
                        sr_shouldCommit = True\<rparr>
                  else unchanged)
         else unchanged)"

text \<open>Examples: a file \<open>src/PDFService.js\<close> exporting \<open>pdf\<close>, or a class
  \<open>PDFServic\<close>, and a file importing \<open>PDFService\<close> from it.\<close>

definition pdfConst :: string where
  "pdfConst = ''export const pdf = 1''"

definition pdfService :: string where
  "pdfService = ''export class PDFServic {'' @ nl @ ''  run() {}'' @ nl @ ''}''"

definition importer :: source_file where
  "importer = \<lparr>sf_path = ''src/app.js'',
                sf_content = ''import { PDFService } from './PDFService';'' @ nl @ ''new PDFService();''\<rparr>"

text \<open>A file \<open>src/UserService.js\<close> with two exports, and a file importing two names
  from it.\<close>

definition userService :: string where
  "userService = ''export const get = 1;'' @ nl @ ''export const getI = 2;''"

definition userImporter :: source_file where
  "userImporter = \<lparr>sf_path = ''src/app.js'',
                    sf_content = ''import { IUserService, UserService } from './UserService';''\<rparr>"

section \<open>Graph assembly: \<open>buildSymbolGraph\<close>\<close>

text \<open>
  Symbols as the extractors produce them, and as the graph stores them (with \<open>id\<close> and
  \<open>file\<close> added). The two \<open>Map\<close>s of the graph are association lists in insertion
  order; \<open>Map.set\<close> on a key already present replaces its value in place, which is
  \<open>AList.update\<close>.
\<close>

datatype symbol_type = FUNCTION | CLASS | METHOD | VARIABLE | IMPORT | EXPORT | INTERFACE | TYPE

record symbol =
  sym_name :: string
  sym_type :: symbol_type
  sym_line :: nat
  sym_from :: "string option"
  sym_extends :: "string option"

record graph_symbol = symbol +
  sym_id :: string
  sym_file :: string

record code_file =
  cf_path :: string
  cf_content :: string

record applied_fix =
  af_content :: string
  af_fixes :: "string list"
  af_shouldCommit :: bool

record tracked_fix =
  tr_filePath :: string
  tr_originalContent :: string
  tr_fixedContent :: string
  tr_fixes :: "string list"

record file_record =
  fr_path :: string
  fr_language :: string
  symbolCount :: nat
  fr_size :: nat
  fr_imports :: "symbol list"
  fr_exports :: "symbol list"

datatype edge_type = Imports | Extends

record edge =
  edge_from :: string
  edge_to :: string
  edge_type :: edge_type

record symbol_graph =
  symbols :: "(string \<times> graph_symbol) list"
  files :: "(string \<times> file_record) list"
  edges :: "edge list"
  syntaxFixes :: "tracked_fix list"
  meta_totalSymbols :: nat
  meta_totalFiles :: nat

definition detectLanguage :: "string \<Rightarrow> string" where
  "detectLanguage ext =
     (if ext \<in> {''.js'', ''.jsx'', ''.mjs''} then ''javascript''
      else if ext \<in> {''.ts'', ''.tsx''} then ''typescript''
      else if ext = ''.py'' then ''python''
      else if ext = ''.java'' then ''java''
      else if ext = ''.cpp'' then ''cpp''
      else if ext = ''.c'' then ''c''
      else if ext = ''.go'' then ''go''
      else if ext = ''.rs'' then ''rust''
      else if ext = ''.rb'' then ''ruby''
      else if ext = ''.php'' then ''php''
      else ''unknown'')"

text \<open>\<open>`${file.path}::${symbol.name}`\<close>\<close>

definition symbolId :: "string \<Rightarrow> string \<Rightarrow> string" where
  "symbolId path name = path @ ''::'' @ name"

definition buildEdges :: "symbol list \<Rightarrow> string \<Rightarrow> edge list" where
  "buildEdges syms path =
     map (\<lambda>imp. \<lparr>edge_from = symbolId path (sym_name imp),
                  edge_to = symbolId (case sym_from imp of None \<Rightarrow> ''undefined'' | Some m \<Rightarrow> m) (sym_name imp),
                  edge_type = Imports\<rparr>)
       (filter (\<lambda>s. sym_type s = IMPORT) syms)
     @ concat (map (\<lambda>cls. case sym_extends cls of
                             None \<Rightarrow> []
                           | Some base \<Rightarrow> if base = [] then []
                               else [\<lparr>edge_from = symbolId path (sym_name cls),
                                      edge_to = symbolId path base, edge_type = Extends\<rparr>])
                 (filter (\<lambda>s. sym_type s = CLASS) syms))"

definition graphSymbol :: "string \<Rightarrow> symbol \<Rightarrow> graph_symbol" where
  "graphSymbol path s =
     \<lparr>sym_name = sym_name s, sym_type = sym_type s, sym_line = sym_line s, sym_from = sym_from s,
      sym_extends = sym_extends s, sym_id = symbolId path (sym_name s), sym_file = path\<rparr>"

definition addSymbol :: "string \<Rightarrow> (string \<times> graph_symbol) list \<Rightarrow> symbol \<Rightarrow> (string \<times> graph_symbol) list" where
  "addSymbol path table s =
     AList.update (symbolId path (sym_name s))
       (graphSymbol path s) table"

definition fileRecordOf :: "code_file \<Rightarrow> symbol list \<Rightarrow> file_record" where
  "fileRecordOf file syms =
     \<lparr>fr_path = cf_path file, fr_language = detectLanguage (toLowerCase (extname (cf_path file))),
      symbolCount = length syms, fr_size = length (cf_content file),
      fr_imports = filter (\<lambda>s. sym_type s = IMPORT) syms,
      fr_exports = filter (\<lambda>s. sym_type s = EXPORT) syms\<rparr>"

text \<open>
  \<open>analyzeFile\<close>. The parsers (Babel, the Python and the generic extractors, with their
  repair-and-retry) are the parameter \<open>parse\<close>: the symbols of a file and the fix
  applied, or an exception. An exception leaves the graph untouched, since parsing comes
  before the first write.
\<close>

definition analyzeFile :: "(code_file \<Rightarrow> string + symbol list \<times> applied_fix option)
    \<Rightarrow> code_file \<Rightarrow> symbol_graph \<Rightarrow> string + symbol_graph" where
  "analyzeFile parse file graph =
     (case parse file of
        Inl err \<Rightarrow> Inl err
      | Inr (syms, syntaxFixApplied) \<Rightarrow>
          Inr (graph\<lparr>
            syntaxFixes :=
              (case syntaxFixApplied of
                 None \<Rightarrow> syntaxFixes graph
               | Some fx \<Rightarrow>
                   if af_shouldCommit fx
                   then syntaxFixes graph @
                        [\<lparr>tr_filePath = cf_path file, tr_originalContent = cf_content file,
                          tr_fixedContent = af_content fx, tr_fixes = af_fixes fx\<rparr>]
                   else syntaxFixes graph),
            files :=
              AList.update (cf_path file) (fileRecordOf file syms) (files graph),
            symbols := foldl (addSymbol (cf_path file)) (symbols graph) syms,
            edges := edges graph @ buildEdges syms (cf_path file)\<rparr>))"

text \<open>Phase 2 of \<open>buildSymbolGraph\<close>: the loop over the files, whose \<open>catch\<close>
  logs a failed file and goes on.\<close>

definition analyzeAll :: "(code_file \<Rightarrow> string + symbol list \<times> applied_fix option)
    \<Rightarrow> code_file list \<Rightarrow> symbol_graph \<Rightarrow> symbol_graph" where
  "analyzeAll parse codeFiles graph =
     foldl (\<lambda>g file. case analyzeFile parse file g of Inl err \<Rightarrow> g | Inr g' \<Rightarrow> g')
       graph codeFiles"

definition serializeGraph :: "symbol_graph \<Rightarrow> symbol_graph" where
  "serializeGraph graph =
     \<lparr>symbols = symbols graph, files = files graph, edges = edges graph,
      syntaxFixes = syntaxFixes graph, meta_totalSymbols = meta_totalSymbols graph,
      meta_totalFiles = meta_totalFiles graph\<rparr>"

text \<open>
  \<open>buildSymbolGraph\<close>, from the files as phase 1 (naming repair) left them.
\<close>

definition buildSymbolGraph :: "(code_file \<Rightarrow> string + symbol list \<times> applied_fix option)
    \<Rightarrow> code_file list \<Rightarrow> symbol_graph" where
  "buildSymbolGraph parse codeFiles =
     (let graph = analyzeAll parse codeFiles
                    \<lparr>symbols = [], files = [], edges = [], syntaxFixes = [],
                     meta_totalSymbols = 0, meta_totalFiles = length codeFiles\<rparr>
      in serializeGraph (graph\<lparr>meta_totalSymbols := length (symbols graph)\<rparr>))"

text \<open>The number of symbols of the graph whose \<open>file\<close> is the given path, and the
  consistency of the graph: every symbol's file has a record, whose \<open>symbolCount\<close> is
  that number.\<close>

definition symbolsOfFile :: "symbol_graph \<Rightarrow> string \<Rightarrow> nat" where
  "symbolsOfFile graph path = length (filter (\<lambda>(i, s). sym_file s = path) (symbols graph))"

definition graphConsistent :: "symbol_graph \<Rightarrow> bool" where
  "graphConsistent graph \<longleftrightarrow>
     list_all (\<lambda>(i, s). case map_of (files graph) (sym_file s) of
                          None \<Rightarrow> False
                        | Some r \<Rightarrow> symbolCount r = symbolsOfFile graph (sym_file s))
       (symbols graph)"

text \<open>What one file contributes: its symbol entries, their ids, its row of the file table.\<close>

definition fileEntries :: "(code_file \<Rightarrow> string + symbol list \<times> applied_fix option) \<Rightarrow> code_file
    \<Rightarrow> (string \<times> graph_symbol) list" where
  "fileEntries parse file =
     (case parse file of
        Inl err \<Rightarrow> []
      | Inr (syms, fx) \<Rightarrow>
          map (\<lambda>s. (symbolId (cf_path file) (sym_name s), graphSymbol (cf_path file) s)) syms)"

definition symbolIds :: "(code_file \<Rightarrow> string + symbol list \<times> applied_fix option) \<Rightarrow> code_file list
    \<Rightarrow> string list" where
  "symbolIds parse codeFiles = map fst (concat (map (fileEntries parse) codeFiles))"

definition fileRows :: "(code_file \<Rightarrow> string + symbol list \<times> applied_fix option)
    \<Rightarrow> code_file \<Rightarrow> (string \<times> file_record) list" where
  "fileRows parse file =
     (case parse file of
        Inl err \<Rightarrow> []
      | Inr (syms, fx) \<Rightarrow> [(cf_path file, fileRecordOf file syms)])"

text \<open>
  An example: \<open>function foo(){}; export default foo\<close> yields a function symbol and an
  export symbol, both named \<open>foo\<close>. A second extractor yields two distinct names.
\<close>

definition sym :: "string \<Rightarrow> symbol_type \<Rightarrow> nat \<Rightarrow> symbol" where
  "sym n t l = \<lparr>sym_name = n, sym_type = t, sym_line = l, sym_from = None, sym_extends = None\<rparr>"

definition twoFoo :: "code_file \<Rightarrow> string + symbol list \<times> applied_fix option" where
  "twoFoo f = Inr ([sym ''foo'' FUNCTION 1, sym ''foo'' EXPORT 2], None)"

definition fooFile :: code_file where
  "fooFile = \<lparr>cf_path = ''a.js'', cf_content = ''function foo(){}; export default foo''\<rparr>"

definition fooBar :: "code_file \<Rightarrow> string + symbol list \<times> applied_fix option" where
  "fooBar f = Inr ([sym ''foo'' FUNCTION 1, sym ''bar'' FUNCTION 2], None)"

section \<open>Retrieval: \<open>createCompactContext\<close>\<close>

text \<open>
  The context bundle that \<open>retrieveContext\<close> assembles. A file's \<open>snippet\<close> and
  \<open>fullContent\<close> are \<open>null\<close> until filled in. The similarity of a symbol is a
  floating-point number that the formatter only prints, so its type is a parameter
  \<open>'sim\<close> and its rendering \<open>(similarity * 100).toFixed(1)\<close> the parameter
  \<open>toPercent\<close>.
\<close>

record code_snippet =
  sn_symbolName :: string
  sn_line :: nat
  sn_code :: string

record 'sim file_symbol =
  fsym_name :: string
  fsym_type :: string
  fsym_line :: nat
  fsym_similarity :: 'sim
  fsym_documentation :: "string option"
  fsym_signature :: "string option"

record 'sim file_context =
  fc_path :: string
  fc_language :: string
  fc_relevantSymbols :: "'sim file_symbol list"
  fc_imports :: "string list"
  fc_exports :: "string list"
  snippet :: "code_snippet list option"
  fullContent :: "string option"

record top_file =
  tf_path :: string
  tf_symbolCount :: nat
  tf_language :: string

record context_summary =
  ctx_totalFiles :: nat
  ctx_totalSymbols :: nat
  languages :: "string list"
  symbolTypes :: "(string \<times> nat) list"
  topFiles :: "top_file list"

record dependency =
  dep_from :: string
  dep_to :: string
  dep_symbol :: string

record call_edge =
  caller :: string
  callee :: string
  ce_symbolName :: string

record ('sim, 'sym) retrieved_context =
  relevantFiles :: "'sim file_context list"
  relevantSymbols :: "'sym list"
  callGraph :: "call_edge list"
  dependencies :: "dependency list"
  summary :: context_summary

text \<open>Decimal rendering of a non-negative integer, as a template literal does.\<close>

fun showNat :: "nat \<Rightarrow> string" where
  "showNat n =
     (if n < 10 then [char_of (48 + n)]
      else showNat (n div 10) @ [char_of (48 + n mod 10)])"

declare showNat.simps [simp del]

text \<open>
  \<open>JSON.stringify(obj, null, 2)\<close> on an object of counts, given as its entries in
  enumeration order: string keys quoted and escaped, two spaces of indentation.
\<close>

definition hexDigit :: "nat \<Rightarrow> char" where
  "hexDigit n = ''0123456789abcdef'' ! n"

definition jsonEscape :: "char \<Rightarrow> string" where
  "jsonEscape c =
     (if c = CHR 0x22 then [CHR 0x5C, CHR 0x22]
      else if c = CHR 0x5C then [CHR 0x5C, CHR 0x5C]
      else if c = CHR 0x08 then [CHR 0x5C, CHR ''b'']
      else if c = CHR 0x0C then [CHR 0x5C, CHR ''f'']
      else if c = CHR 0x0A then [CHR 0x5C, CHR ''n'']
      else if c = CHR 0x0D then [CHR 0x5C, CHR ''r'']
      else if c = CHR 0x09 then [CHR 0x5C, CHR ''t'']
      else if (of_char c :: nat) < 32
        then [CHR 0x5C, CHR ''u'', CHR ''0'', CHR ''0'',
              hexDigit ((of_char c :: nat) div 16), hexDigit ((of_char c :: nat) mod 16)]
      else [c])"

definition jsonQuote :: "string \<Rightarrow> string" where
  "jsonQuote s = [CHR 0x22] @ concat (map jsonEscape s) @ [CHR 0x22]"

definition jsonStringify :: "(string \<times> nat) list \<Rightarrow> string" where
  "jsonStringify entries =
     (if entries = [] then ''{}''
      else ''{'' @ [CHR 0x0A]
           @ joinWith ('','' @ [CHR 0x0A]) (map (\<lambda>(k, v). ''  '' @ jsonQuote k @ '': '' @ showNat v) entries)
           @ [CHR 0x0A] @ ''}'')"

text \<open>\<open>if (symbol.documentation)\<close>: \<open>null\<close> and the empty string are falsy.\<close>

definition truthy :: "string option \<Rightarrow> bool" where
  "truthy v = (case v of None \<Rightarrow> False | Some s \<Rightarrow> s \<noteq> [])"

definition formatSymbol :: "('sim \<Rightarrow> string) \<Rightarrow> 'sim file_symbol \<Rightarrow> string list" where
  "formatSymbol toPercent symbol =
     [''  - '' @ fsym_name symbol @ '' ('' @ fsym_type symbol @ '') at line '' @ showNat (fsym_line symbol)]
     @ (if truthy (fsym_documentation symbol) then [''    Doc: '' @ the (fsym_documentation symbol)] else [])
     @ (if truthy (fsym_signature symbol) then [''    Signature: '' @ the (fsym_signature symbol)] else [])
     @ [''    Relevance: '' @ toPercent (fsym_similarity symbol) @ ''%'']"

definition formatSnippet :: "code_snippet \<Rightarrow> string list" where
  "formatSnippet s =
     [[CHR 0x0A] @ ''  Symbol: '' @ sn_symbolName s @ '' (line '' @ showNat (sn_line s) @ '')'',
      ''  ```'', sn_code s, ''  ```'']"

definition formatFile :: "('sim \<Rightarrow> string) \<Rightarrow> 'sim file_context \<Rightarrow> string list" where
  "formatFile toPercent file =
     [[CHR 0x0A] @ ''--- File: '' @ fc_path file @ '' ('' @ fc_language file @ '') ---'']
     @ (if length (fc_imports file) > 0 then [''Imports: '' @ joinWith '', '' (fc_imports file)] else [])
     @ (if length (fc_exports file) > 0 then [''Exports: '' @ joinWith '', '' (fc_exports file)] else [])
     @ [[CHR 0x0A] @ ''Relevant Symbols:'']
     @ concat (map (formatSymbol toPercent) (take 10 (fc_relevantSymbols file)))
     @ (case snippet file of
          None \<Rightarrow> []
        | Some sn \<Rightarrow>
            if length sn > 0
            then [[CHR 0x0A] @ ''Code Snippets:''] @ concat (map formatSnippet (take 3 sn))
            else [])"

definition formatContextForAI :: "('sim \<Rightarrow> string) \<Rightarrow> ('sim, 'sym) retrieved_context \<Rightarrow> string" where
  "formatContextForAI toPercent context =
     joinWith [CHR 0x0A]
      ([''=== CODE CONTEXT SUMMARY ==='',
        ''Total Files: '' @ showNat (ctx_totalFiles (summary context)),
        ''Total Symbols: '' @ showNat (ctx_totalSymbols (summary context)),
        ''Languages: '' @ joinWith '', '' (languages (summary context)),
        ''Symbol Types: '' @ jsonStringify (symbolTypes (summary context)),
        '''',
        ''=== TOP RELEVANT FILES ==='']
       @ map (\<lambda>fileInfo. ''- '' @ tf_path fileInfo @ '' ('' @ tf_language fileInfo @ '', ''
                @ showNat (tf_symbolCount fileInfo) @ '' relevant symbols)'') (topFiles (summary context))
       @ ['''', ''=== FILE DETAILS ==='']
       @ concat (map (formatFile toPercent) (relevantFiles context))
       @ (if length (dependencies context) > 0
          then [[CHR 0x0A] @ ''=== DEPENDENCIES ==='']
               @ map (\<lambda>dep. dep_from dep @ '' -> '' @ dep_to dep @ '' ('' @ dep_symbol dep @ '')'')
                   (take 20 (dependencies context))
          else []))"

text \<open>\<open>Math.ceil(text.length / 4)\<close>\<close>

definition estimateTokens :: "string \<Rightarrow> nat" where
  "estimateTokens text = (length text + 3) div 4"

text \<open>
  The body of the loop over \<open>compactContext.relevantFiles\<close>: the full content is
  dropped, and a snippet list that is present keeps its first two entries.
\<close>

definition compactFile :: "'sim file_context \<Rightarrow> 'sim file_context" where
  "compactFile file =
     file\<lparr>fullContent := None,
          snippet := (case snippet file of None \<Rightarrow> None | Some sn \<Rightarrow> Some (take 2 sn))\<rparr>"

text \<open>
  \<open>createCompactContext\<close>: a context whose estimate is within the budget is returned
  as it is; otherwise the four lists are cut and every kept file is compacted. (The loop
  mutates the file objects, which the input context shares; the model returns the
  result only.)
\<close>

definition createCompactContext :: "('sim \<Rightarrow> string) \<Rightarrow> ('sim, 'sym) retrieved_context \<Rightarrow> int \<Rightarrow> ('sim, 'sym) retrieved_context" where
  "createCompactContext toPercent context maxTokens =
     (let estimated = estimateTokens (formatContextForAI toPercent context)
      in if int estimated \<le> maxTokens then context
         else context\<lparr>relevantFiles := map compactFile (take 5 (relevantFiles context)),
                      relevantSymbols := take 20 (relevantSymbols context),
                      callGraph := take 10 (callGraph context),
                      dependencies := take 10 (dependencies context)\<rparr>)"

text \<open>The fixed caps: 5 files, 20 symbols, 10 dependencies, 2 snippets per file.\<close>

definition withinCaps :: "('sim, 'sym) retrieved_context \<Rightarrow> bool" where
  "withinCaps c \<longleftrightarrow>
     length (relevantFiles c) \<le> 5 \<and> length (relevantSymbols c) \<le> 20 \<and>
     length (dependencies c) \<le> 10 \<and>
     list_all (\<lambda>f. case snippet f of None \<Rightarrow> True | Some sn \<Rightarrow> length sn \<le> 2) (relevantFiles c)"

text \<open>A context of six files with one matched symbol each; similarities are kept in
  tenths of a percent.\<close>

definition showTenths :: "nat \<Rightarrow> string" where
  "showTenths n = showNat (n div 10) @ ''.'' @ showNat (n mod 10)"

definition demoFile :: "string \<Rightarrow> nat file_context" where
  "demoFile p =
     \<lparr>fc_path = p, fc_language = ''javascript'',
      fc_relevantSymbols = [\<lparr>fsym_name = ''main'', fsym_type = ''function'', fsym_line = 1,
         fsym_similarity = 423, fsym_documentation = None, fsym_signature = None\<rparr>],
      fc_imports = [], fc_exports = [],
      snippet = Some [\<lparr>sn_symbolName = ''main'', sn_line = 1, sn_code = ''1: function main() {}''\<rparr>],
      fullContent = None\<rparr>"

definition sixFiles :: "(nat, string) retrieved_context" where
  "sixFiles =
     \<lparr>relevantFiles = map demoFile [''a.js'', ''b.js'', ''c.js'', ''d.js'', ''e.js'', ''f.js''],
      relevantSymbols = [''main'', ''main'', ''main'', ''main'', ''main'', ''main''],
      callGraph = [], dependencies = [],
      summary = \<lparr>ctx_totalFiles = 6, ctx_totalSymbols = 6, languages = [''javascript''],
                  symbolTypes = [(''function'', 6)],
                  topFiles = map (\<lambda>p. \<lparr>tf_path = p, tf_symbolCount = 1, tf_language = ''javascript''\<rparr>)
                               [''a.js'', ''b.js'', ''c.js'', ''d.js'', ''e.js'']\<rparr>\<rparr>"

section \<open>Embedding index: \<open>semanticSearch\<close>\<close>

text \<open>
  An embedding record as \<open>buildEmbeddingIndex\<close> stores it. The field \<open>embedding\<close> is
  the vector, or \<open>None\<close> once a result has had it replaced by \<open>undefined\<close>. A search
  result is the record with the computed \<open>similarity\<close> added.
\<close>

datatype search_error = EmbeddingFailed | NoVector | LengthMismatch

record 'n embedding_record =
  er_id :: string
  symbolName :: string
  symbolType :: string
  er_file :: string
  er_line :: nat
  embedding :: "'n list option"
  er_text :: string

text \<open>
  A similarity is a JavaScript number: \<open>NaN\<close>, or a number that compares with every
  other such number (a finite double or an infinity), taken from a linear order.
\<close>

datatype 's number = NaN | Num 's

record ('n, 's) search_result = "'n embedding_record" +
  similarity :: "'s number"

record 'n embedding_index =
  idx_repoId :: string
  embeddings :: "'n embedding_record list"

text \<open>
  \<open>cosineSimilarity\<close> throws when the two vectors differ in length and returns 0 when
  one of the two norms is 0. The sums of the loop, the square roots and the final
  division are computed in floating point. They are parameters: \<open>normOf\<close> is
  \<open>Math.sqrt\<close> of the sum of squares of a vector, \<open>ratio\<close> is
  \<open>dotProduct / (norm1 * norm2)\<close>, and either may be \<open>NaN\<close>.
\<close>

definition cosineSimilarity :: "('n list \<Rightarrow> 's::zero number) \<Rightarrow> ('n list \<Rightarrow> 'n list \<Rightarrow> 's number)
    \<Rightarrow> 'n list \<Rightarrow> 'n list \<Rightarrow> search_error + 's number" where
  "cosineSimilarity normOf ratio vec1 vec2 =
     (if length vec1 \<noteq> length vec2 then Inl LengthMismatch
      else if normOf vec1 = Num 0 \<or> normOf vec2 = Num 0 then Inr (Num 0)
      else Inr (ratio vec1 vec2))"

text \<open>The callback of \<open>index.embeddings.map\<close>:
  \<open>{...item, similarity, embedding: undefined}\<close>. Reading \<open>.length\<close> of a missing
  vector throws.\<close>

definition scoreItem :: "('n list \<Rightarrow> 's::zero number) \<Rightarrow> ('n list \<Rightarrow> 'n list \<Rightarrow> 's number)
    \<Rightarrow> 'n list \<Rightarrow> 'n embedding_record \<Rightarrow> search_error + ('n, 's) search_result" where
  "scoreItem normOf ratio queryEmbedding item =
     (case embedding item of
        None \<Rightarrow> Inl NoVector
      | Some v \<Rightarrow>
          (case cosineSimilarity normOf ratio queryEmbedding v of
             Inl e \<Rightarrow> Inl e
           | Inr s \<Rightarrow>
               Inr \<lparr>er_id = er_id item, symbolName = symbolName item, symbolType = symbolType item,
                    er_file = er_file item, er_line = er_line item, embedding = None,
                    er_text = er_text item, similarity = s\<rparr>))"

fun scoreAll :: "('n list \<Rightarrow> 's::zero number) \<Rightarrow> ('n list \<Rightarrow> 'n list \<Rightarrow> 's number)
    \<Rightarrow> 'n list \<Rightarrow> 'n embedding_record list \<Rightarrow> search_error + ('n, 's) search_result list" where
  "scoreAll normOf ratio q [] = Inr []"
| "scoreAll normOf ratio q (item # items) =
     (case scoreItem normOf ratio q item of
        Inl e \<Rightarrow> Inl e
      | Inr r \<Rightarrow> (case scoreAll normOf ratio q items of Inl e \<Rightarrow> Inl e | Inr rs \<Rightarrow> Inr (r # rs)))"

text \<open>
  The comparator \<open>(a, b) => b.similarity - a.similarity\<close> as \<open>sort\<close> reads its
  result: negative, zero or positive, and zero when the difference is \<open>NaN\<close>, which it
  is as soon as one of the two similarities is \<open>NaN\<close>. (The difference of two equal
  infinities is \<open>NaN\<close> as well, and zero is what their order gives.)
\<close>

definition bySimilarity :: "('n, 's::linorder) search_result \<Rightarrow> ('n, 's) search_result \<Rightarrow> int" where
  "bySimilarity a b =
     (case (similarity a, similarity b) of
        (Num x, Num y) \<Rightarrow> (if y < x then - 1 else if x < y then 1 else 0)
      | _ \<Rightarrow> 0)"

text \<open>
  \<open>results.sort(bySimilarity)\<close>. The sort is stable: it puts \<open>y\<close> before \<open>x\<close> when
  the comparator is negative on \<open>(y, x)\<close>, and keeps two records in their order
  otherwise. While no similarity is \<open>NaN\<close> the comparator orders the records
  consistently and the sorted list is determined; insertion from the right computes it.
  With a \<open>NaN\<close> among the similarities the comparator is not consistent; the order is
  then the engine's choice, and insertion is the one made here.
\<close>

fun insertBySimilarity :: "('n, 's::linorder) search_result \<Rightarrow> ('n, 's) search_result list
    \<Rightarrow> ('n, 's) search_result list" where
  "insertBySimilarity x [] = [x]"
| "insertBySimilarity x (y # ys) =
     (if bySimilarity y x < 0 then y # insertBySimilarity x ys else x # y # ys)"

definition sortBySimilarity :: "('n, 's::linorder) search_result list \<Rightarrow> ('n, 's) search_result list" where
  "sortBySimilarity rs = foldr insertBySimilarity rs []"

text \<open>\<open>results.slice(0, topK)\<close> for an integer \<open>topK\<close>: a negative \<open>topK\<close> counts
  from the end of the list.\<close>

definition sliceTo :: "int \<Rightarrow> 'a list \<Rightarrow> 'a list" where
  "sliceTo topK xs =
     (if topK < 0 then take (nat (int (length xs) + topK)) xs else take (nat topK) xs)"

text \<open>
  \<open>semanticSearch\<close>. The embedding model behind \<open>generateEmbedding\<close> is external and
  may fail; it is a parameter. The \<open>catch\<close> logs and rethrows, so an error of the body
  is the error of the call.
\<close>

definition semanticSearch :: "(string \<Rightarrow> search_error + 'n list) \<Rightarrow> ('n list \<Rightarrow> 's::{linorder,zero} number)
    \<Rightarrow> ('n list \<Rightarrow> 'n list \<Rightarrow> 's number) \<Rightarrow> 'n embedding_index \<Rightarrow> string \<Rightarrow> int
    \<Rightarrow> search_error + ('n, 's) search_result list" where
  "semanticSearch generateEmbedding normOf ratio index query topK =
     (case generateEmbedding query of
        Inl e \<Rightarrow> Inl e
      | Inr queryEmbedding \<Rightarrow>
          (case scoreAll normOf ratio queryEmbedding (embeddings index) of
             Inl e \<Rightarrow> Inl e
           | Inr results \<Rightarrow> Inr (sliceTo topK (sortBySimilarity results))))"

text \<open>\<open>a >= b\<close> on two numbers, which is false when one of them is \<open>NaN\<close>; and a
  list in which every record is at least as similar as each record after it.\<close>

fun notBelow :: "'s::linorder number \<Rightarrow> 's number \<Rightarrow> bool" where
  "notBelow (Num x) (Num y) = (y \<le> x)"
| "notBelow NaN b = False"
| "notBelow a NaN = False"

definition descending :: "('n, 's::linorder) search_result list \<Rightarrow> bool" where
  "descending rs = sorted_wrt (\<lambda>a b. notBelow (similarity a) (similarity b)) rs"

text \<open>Every stored record carries a vector of the length of the query's.\<close>

definition comparable :: "'n list \<Rightarrow> 'n embedding_record list \<Rightarrow> bool" where
  "comparable q items =
     list_all (\<lambda>item. case embedding item of None \<Rightarrow> False | Some v \<Rightarrow> length q = length v) items"

text \<open>
  For the examples: integer vectors, the sum of squares as the norm (it is 0 for the
  vectors whose norm is 0) and the dot product as the score. The vector
  \<open>overflowing\<close> scores \<open>NaN\<close>, as it does in double arithmetic against the query
  \<open>[1, 1]\<close>: the dot product and the norm both overflow to infinity, and the quotient
  of two infinities is \<open>NaN\<close>.
\<close>

definition demoRecord :: "string \<Rightarrow> int list \<Rightarrow> int embedding_record" where
  "demoRecord n v = \<lparr>er_id = ''a.js::'' @ n, symbolName = n, symbolType = ''function'',
     er_file = ''a.js'', er_line = 1, embedding = Some v, er_text = ''function '' @ n\<rparr>"

definition demoIndex :: "int embedding_index" where
  "demoIndex = \<lparr>idx_repoId = ''demo'',
     embeddings = [demoRecord ''f'' [1, 0], demoRecord ''g'' [3, 1], demoRecord ''h'' [2, 5]]\<rparr>"

definition overflowing :: "int list" where
  "overflowing = [2 ^ 1023, 2 ^ 1023]"

definition overflowIndex :: "int embedding_index" where
  "overflowIndex = \<lparr>idx_repoId = ''demo'',
     embeddings = [demoRecord ''f'' [1, 0], demoRecord ''g'' overflowing, demoRecord ''h'' [2, 5]]\<rparr>"

definition dotProduct :: "int list \<Rightarrow> int list \<Rightarrow> int" where
  "dotProduct v w = sum_list (map2 (*) v w)"

definition demoNorm :: "int list \<Rightarrow> int number" where
  "demoNorm v = Num (dotProduct v v)"

definition demoRatio :: "int list \<Rightarrow> int list \<Rightarrow> int number" where
  "demoRatio v w = (if w = overflowing then NaN else Num (dotProduct v w))"

definition demoEmbedding :: "string \<Rightarrow> search_error + int list" where
  "demoEmbedding query = Inr [1, 1]"

section \<open>Index storage: \<open>deleteIndex\<close>\<close>

text \<open>
  The index of a repository is one JSON file under \<open>INDEX_DIR\<close>. The part of Node's
  \<open>fs\<close> module that \<open>deleteIndex\<close> touches is modelled by a map from paths to the
  kind of entry found there: \<open>fs.access\<close> fails with \<open>ENOENT\<close> on a missing path
  and with \<open>EACCES\<close> on an entry that cannot be reached, \<open>fs.unlink\<close> removes a
  regular entry and fails with \<open>EPERM\<close> on a protected one.
\<close>

datatype fs_error = ENOENT | EACCES | EPERM

datatype fs_entry = Regular | Unreachable | Protected

type_synonym filesystem = "string \<rightharpoonup> fs_entry"

datatype log_level = Info | Success | Warning | Error

definition fs_access :: "filesystem \<Rightarrow> string \<Rightarrow> fs_error + unit" where
  "fs_access fs p =
     (case fs p of
        None \<Rightarrow> Inl ENOENT
      | Some Unreachable \<Rightarrow> Inl EACCES
      | Some _ \<Rightarrow> Inr ())"

definition fs_unlink :: "filesystem \<Rightarrow> string \<Rightarrow> fs_error + filesystem" where
  "fs_unlink fs p =
     (case fs p of
        None \<Rightarrow> Inl ENOENT
      | Some Regular \<Rightarrow> Inr (fs(p := None))
      | Some Unreachable \<Rightarrow> Inl EACCES
      | Some Protected \<Rightarrow> Inl EPERM)"

text \<open>\<open>repoId.replace(/[^a-zA-Z0-9-_]/g, '_')\<close>\<close>

definition isRepoIdChar :: "char \<Rightarrow> bool" where
  "isRepoIdChar c \<longleftrightarrow>
     (CHR ''a'' \<le> c \<and> c \<le> CHR ''z'') \<or> (CHR ''A'' \<le> c \<and> c \<le> CHR ''Z'') \<or>
     (CHR ''0'' \<le> c \<and> c \<le> CHR ''9'') \<or> c = CHR ''-'' \<or> c = CHR ''_''"

definition sanitizeRepoId :: "string \<Rightarrow> string" where
  "sanitizeRepoId repoId = map (\<lambda>c. if isRepoIdChar c then c else CHR ''_'') repoId"

text \<open>\<open>path.join(INDEX_DIR, `${sanitizeRepoId(repoId)}.json`)\<close>; the directory depends on
  the working directory of the process and is a parameter.\<close>

definition indexPath :: "string \<Rightarrow> string \<Rightarrow> string" where
  "indexPath indexDir repoId = indexDir @ ''/'' @ sanitizeRepoId repoId @ ''.json''"

text \<open>
  The inner \<open>try\<close> block of \<open>deleteIndex\<close>: \<open>access\<close> then \<open>unlink\<close>; the first
  failure leaves the block with its error.
\<close>

definition deleteIndex_attempt :: "filesystem \<Rightarrow> string \<Rightarrow> fs_error + filesystem" where
  "deleteIndex_attempt fs p =
     (case fs_access fs p of
        Inl e \<Rightarrow> Inl e
      | Inr _ \<Rightarrow> fs_unlink fs p)"

text \<open>
  \<open>deleteIndex\<close> itself. The result is the outcome of the promise (\<open>Inl\<close> would be
  a rejection), the level of the line it logs, and the file system afterwards. The inner
  \<open>catch\<close> swallows \<open>ENOENT\<close> and rethrows anything else; the outer \<open>catch\<close> logs
  a warning and returns.
\<close>

definition deleteIndex :: "string \<Rightarrow> filesystem \<Rightarrow> string \<Rightarrow> (fs_error + unit) \<times> log_level \<times> filesystem" where
  "deleteIndex indexDir fs repoId =
     (let p = indexPath indexDir repoId;
          inner = (case deleteIndex_attempt fs p of
                     Inr fs' \<Rightarrow> Inr (Success, fs')
                   | Inl e \<Rightarrow> if e = ENOENT then Inr (Info, fs) else Inl e)
      in case inner of
           Inr (lvl, fs') \<Rightarrow> (Inr (), lvl, fs')
         | Inl e \<Rightarrow> (Inr (), Warning, fs))"

text \<open>Two calls in a row: the second runs on the file system the first one left.\<close>

definition deleteIndex_twice :: "string \<Rightarrow> filesystem \<Rightarrow> string \<Rightarrow> (fs_error + unit) \<times> (fs_error + unit) \<times> filesystem" where
  "deleteIndex_twice indexDir fs repoId =
     (case deleteIndex indexDir fs repoId of
        (r1, _, fs1) \<Rightarrow>
          (case deleteIndex indexDir fs1 repoId of
             (r2, _, fs2) \<Rightarrow> (r1, r2, fs2)))"

section \<open>Theorems\<close>

subsection \<open>Matches\<close>

lemma manyGreedy_span:
  "(pre', rest') \<in> set (manyGreedy p pre rest) \<Longrightarrow>
   \<exists>w. rest = w @ rest' \<and> pre' = rev w @ pre \<and> (\<forall>c \<in> set w. p c)"
proof (induction rest arbitrary: pre)
  case Nil
  then show ?case by simp
next
  case (Cons c cs)
  show ?case
  proof (cases "p c \<and> (pre', rest') \<in> set (manyGreedy p (c # pre) cs)")
    case True
    with Cons.IH [of "c # pre"] obtain w where "cs = w @ rest'" "pre' = rev w @ c # pre" "\<forall>d \<in> set w. p d"
      by blast
    with True show ?thesis by (intro exI [of _ "c # w"]) simp
  next
    case False
    with Cons.prems have "pre' = pre \<and> rest' = c # cs" by (auto split: if_splits)
    then show ?thesis by (intro exI [of _ "[]"]) simp
  qed
qed

lemma fewLazy_span:
  "(pre', rest') \<in> set (fewLazy p pre rest) \<Longrightarrow>
   \<exists>w. rest = w @ rest' \<and> pre' = rev w @ pre \<and> (\<forall>c \<in> set w. p c)"
proof (induction rest arbitrary: pre)
  case Nil
  then show ?case by simp
next
  case (Cons c cs)
  show ?case
  proof (cases "p c \<and> (pre', rest') \<in> set (fewLazy p (c # pre) cs)")
    case True
    with Cons.IH [of "c # pre"] obtain w where "cs = w @ rest'" "pre' = rev w @ c # pre" "\<forall>d \<in> set w. p d"
      by blast
    with True show ?thesis by (intro exI [of _ "c # w"]) simp
  next
    case False
    with Cons.prems have "pre' = pre \<and> rest' = c # cs" by (auto split: if_splits)
    then show ?thesis by (intro exI [of _ "[]"]) simp
  qed
qed

lemma sound_nil: "sound r st st [] \<longleftrightarrow> True"
  by (simp add: sound_def span_def)

text \<open>Every end state of a match is related to its start state as \<open>sound\<close> says.\<close>

lemma ms_sound: "st' \<in> set (ms r st) \<Longrightarrow> \<exists>w. sound r st st' w"
proof (induction r arbitrary: st st')
  case (Sat p)
  obtain pre rest caps where st: "st = (pre, rest, caps)" by (cases st) auto
  with Sat obtain c cs where "rest = c # cs" "p c" "st' = (c # pre, cs, caps)"
    by (auto split: list.splits if_splits)
  then show ?case using st by (intro exI [of _ "[c]"]) (simp add: sound_def span_def)
next
  case (Many p)
  obtain pre rest caps where st: "st = (pre, rest, caps)" by (cases st) auto
  with Many obtain pre' rest' where "(pre', rest') \<in> set (manyGreedy p pre rest)" "st' = (pre', rest', caps)"
    by auto
  with manyGreedy_span [of pre' rest' p pre rest] st show ?case
    by (auto simp: sound_def span_def)
next
  case (Few p)
  obtain pre rest caps where st: "st = (pre, rest, caps)" by (cases st) auto
  with Few obtain pre' rest' where "(pre', rest') \<in> set (fewLazy p pre rest)" "st' = (pre', rest', caps)"
    by auto
  with fewLazy_span [of pre' rest' p pre rest] st show ?case
    by (auto simp: sound_def span_def)
next
  case (Maybe p)
  obtain pre rest caps where st: "st = (pre, rest, caps)" by (cases st) auto
  with Maybe have "st' = st \<or> (\<exists>c cs. rest = c # cs \<and> p c \<and> st' = (c # pre, cs, caps))"
    by (auto split: list.splits if_splits)
  then show ?case
  proof
    assume "st' = st" then show ?thesis by (intro exI [of _ "[]"]) (simp add: sound_nil)
  next
    assume "\<exists>c cs. rest = c # cs \<and> p c \<and> st' = (c # pre, cs, caps)"
    then obtain c cs where "rest = c # cs" "p c" "st' = (c # pre, cs, caps)" by blast
    then show ?thesis using st by (intro exI [of _ "[c]"]) (simp add: sound_def span_def)
  qed
next
  case (Seq a b)
  then obtain mid where m1: "mid \<in> set (ms a st)" and m2: "st' \<in> set (ms b mid)" by auto
  from Seq.IH(1) [OF m1] obtain w1 where w1: "sound a st mid w1" by blast
  from Seq.IH(2) [OF m2] obtain w2 where w2: "sound b mid st' w2" by blast
  have "sound (Seq a b) st st' (w1 @ w2)"
    using w1 w2 unfolding sound_def span_def by (auto; metis)
  then show ?case by blast
next
  case (Alt a b)
  then have "st' \<in> set (ms a st) \<or> st' \<in> set (ms b st)" by auto
  then show ?case
  proof
    assume "st' \<in> set (ms a st)"
    from Alt.IH(1) [OF this] obtain w where "sound a st st' w" by blast
    then have "sound (Alt a b) st st' w" unfolding sound_def by (auto; metis)
    then show ?thesis by blast
  next
    assume "st' \<in> set (ms b st)"
    from Alt.IH(2) [OF this] obtain w where "sound b st st' w" by blast
    then have "sound (Alt a b) st st' w" unfolding sound_def by (auto; metis)
    then show ?thesis by blast
  qed
next
  case (Group i r)
  obtain pre rest caps where st: "st = (pre, rest, caps)" by (cases st) auto
  with Group.prems obtain pre' rest' caps0 where in0: "(pre', rest', caps0) \<in> set (ms r st)"
    and st': "st' = (pre', rest', caps0(i \<mapsto> take (length rest - length rest') rest))"
    by auto
  from Group.IH [OF in0] obtain w where w: "sound r st (pre', rest', caps0) w" by blast
  then have tk: "take (length rest - length rest') rest = w"
    using st by (simp add: sound_def span_def)
  have "sound (Group i r) st st' w"
    using w st unfolding sound_def span_def st' tk by auto
  then show ?case by blast
next
  case InputStart
  then have "st' = st" by (cases st) (auto split: if_splits)
  then show ?case by (intro exI [of _ "[]"]) (simp add: sound_nil)
next
  case InputEnd
  then have "st' = st" by (cases st) (auto split: if_splits)
  then show ?case by (intro exI [of _ "[]"]) (simp add: sound_nil)
next
  case LineEnd
  then have "st' = st" by (cases st) (auto split: if_splits list.splits)
  then show ?case by (intro exI [of _ "[]"]) (simp add: sound_nil)
next
  case WordBoundary
  then have "st' = st" by (cases st) (auto split: if_splits)
  then show ?case by (intro exI [of _ "[]"]) (simp add: sound_nil)
qed

lemma matchAt_in: "matchAt r pre rest = Some st \<Longrightarrow> st \<in> set (ms r (pre, rest, Map.empty))"
  by (auto simp: matchAt_def split: list.splits)

lemma matchAt_span:
  assumes "matchAt r pre rest = Some (pre', rest', caps')"
  shows "\<exists>w. rest = w @ rest' \<and> pre' = rev w @ pre \<and> (\<forall>c \<in> set w. consumes r c)"
proof -
  from ms_sound [OF matchAt_in [OF assms]] obtain w
    where "sound r (pre, rest, Map.empty) (pre', rest', caps') w" by blast
  then show ?thesis by (auto simp: sound_def span_def)
qed

lemma matchAt_capture:
  assumes "matchAt r pre rest = Some (pre', rest', caps')"
  shows "\<forall>c \<in> set (capture caps' i). consumes r c"
proof -
  from ms_sound [OF matchAt_in [OF assms]] obtain w
    where "sound r (pre, rest, Map.empty) (pre', rest', caps') w" by blast
  then have "\<forall>s. caps' i = Some s \<longrightarrow> (\<forall>c \<in> set s. consumes r c)"
    by (simp add: sound_def)
  then show ?thesis by (cases "caps' i") (simp_all add: capture_def)
qed

lemma replaceFrom_None_Nil: "matchAt r pre [] = None \<Longrightarrow> replaceFrom r tmpl pre [] = []"
  by (subst replaceFrom.simps) simp

lemma replaceFrom_None_Cons:
  "matchAt r pre (c # cs) = None \<Longrightarrow>
   replaceFrom r tmpl pre (c # cs) = c # replaceFrom r tmpl (c # pre) cs"
  by (subst replaceFrom.simps) simp

lemma replaceFrom_Some_step:
  "matchAt r pre rest = Some (pre', rest', caps) \<Longrightarrow> length rest' < length rest \<Longrightarrow>
   replaceFrom r tmpl pre rest =
     substitute (ngroups r) (rev pre) (take (length rest - length rest') rest) rest' caps tmpl
     @ replaceFrom r tmpl pre' rest'"
  by (subst replaceFrom.simps) simp

lemma replaceFrom_Some_empty:
  "matchAt r pre rest = Some (pre', rest', caps) \<Longrightarrow> \<not> length rest' < length rest \<Longrightarrow>
   replaceFrom r tmpl pre rest =
     substitute (ngroups r) (rev pre) (take (length rest - length rest') rest) rest' caps tmpl
     @ (case rest of [] \<Rightarrow> [] | c # cs \<Rightarrow> c # replaceFrom r tmpl (c # pre) cs)"
  by (subst replaceFrom.simps) simp

text \<open>A replacement that keeps (or does not lower) the number of occurrences of a
  character in every match keeps it (or does not lower it) in the whole text.\<close>

lemma replaceFrom_count_le:
  assumes "\<And>pre rest pre' rest' caps w. matchAt r pre rest = Some (pre', rest', caps) \<Longrightarrow>
             rest = w @ rest' \<Longrightarrow>
             count_list w x \<le> count_list (substitute (ngroups r) (rev pre) w rest' caps tmpl) x"
  shows "count_list rest x \<le> count_list (replaceFrom r tmpl pre rest) x"
  using assms
proof (induction r tmpl pre rest rule: replaceFrom.induct)
  case (1 r tmpl pre rest)
  show ?case
  proof (cases "matchAt r pre rest")
    case None
    show ?thesis
    proof (cases rest)
      case Nil
      then show ?thesis using None by (simp add: replaceFrom_None_Nil)
    next
      case (Cons c cs)
      have "count_list cs x \<le> count_list (replaceFrom r tmpl (c # pre) cs) x"
        by (rule "1.IH"(1) [OF None Cons]) (rule "1.prems")
      then show ?thesis
        using None Cons by (auto simp: replaceFrom_None_Cons)
    qed
  next
    case (Some st)
    obtain pre' rest' caps where st: "st = (pre', rest', caps)" by (cases st) auto
    from matchAt_span [OF Some [unfolded st]] obtain w where w: "rest = w @ rest'" by blast
    then have tk: "take (length rest - length rest') rest = w" by simp
    have sub: "count_list w x \<le> count_list (substitute (ngroups r) (rev pre) w rest' caps tmpl) x"
      using "1.prems" [OF Some [unfolded st] w] .
    show ?thesis
    proof (cases "length rest' < length rest")
      case True
      have "count_list rest' x \<le> count_list (replaceFrom r tmpl pre' rest') x"
        by (rule "1.IH"(2) [OF Some [unfolded st] refl refl True]) (rule "1.prems")
      then show ?thesis
        using replaceFrom_Some_step [OF Some [unfolded st] True, of tmpl] sub w tk by simp
    next
      case False
      with w have wn: "w = []" and rr: "rest' = rest" by auto
      show ?thesis
      proof (cases rest)
        case Nil
        then show ?thesis using replaceFrom_Some_empty [OF Some [unfolded st] False, of tmpl]
          by simp
      next
        case (Cons c cs)
        have "count_list cs x \<le> count_list (replaceFrom r tmpl (c # pre) cs) x"
          by (rule "1.IH"(3) [OF Some [unfolded st] refl refl False Cons]) (rule "1.prems")
        then show ?thesis
          using replaceFrom_Some_empty [OF Some [unfolded st] False, of tmpl] Cons sub wn tk
          by auto
      qed
    qed
  qed
qed

lemma replaceFrom_count_eq:
  assumes "\<And>pre rest pre' rest' caps w. matchAt r pre rest = Some (pre', rest', caps) \<Longrightarrow>
             rest = w @ rest' \<Longrightarrow>
             count_list w x = count_list (substitute (ngroups r) (rev pre) w rest' caps tmpl) x"
  shows "count_list rest x = count_list (replaceFrom r tmpl pre rest) x"
  using assms
proof (induction r tmpl pre rest rule: replaceFrom.induct)
  case (1 r tmpl pre rest)
  show ?case
  proof (cases "matchAt r pre rest")
    case None
    show ?thesis
    proof (cases rest)
      case Nil
      then show ?thesis using None by (simp add: replaceFrom_None_Nil)
    next
      case (Cons c cs)
      have "count_list cs x = count_list (replaceFrom r tmpl (c # pre) cs) x"
        by (rule "1.IH"(1) [OF None Cons]) (rule "1.prems")
      then show ?thesis
        using None Cons by (auto simp: replaceFrom_None_Cons)
    qed
  next
    case (Some st)
    obtain pre' rest' caps where st: "st = (pre', rest', caps)" by (cases st) auto
    from matchAt_span [OF Some [unfolded st]] obtain w where w: "rest = w @ rest'" by blast
    then have tk: "take (length rest - length rest') rest = w" by simp
    have sub: "count_list w x = count_list (substitute (ngroups r) (rev pre) w rest' caps tmpl) x"
      using "1.prems" [OF Some [unfolded st] w] .
    show ?thesis
    proof (cases "length rest' < length rest")
      case True
      have "count_list rest' x = count_list (replaceFrom r tmpl pre' rest') x"
        by (rule "1.IH"(2) [OF Some [unfolded st] refl refl True]) (rule "1.prems")
      then show ?thesis
        using replaceFrom_Some_step [OF Some [unfolded st] True, of tmpl] sub w tk by simp
    next
      case False
      with w have wn: "w = []" and rr: "rest' = rest" by auto
      show ?thesis
      proof (cases rest)
        case Nil
        then show ?thesis using replaceFrom_Some_empty [OF Some [unfolded st] False, of tmpl] sub wn tk
          by simp
      next
        case (Cons c cs)
        have "count_list cs x = count_list (replaceFrom r tmpl (c # pre) cs) x"
          by (rule "1.IH"(3) [OF Some [unfolded st] refl refl False Cons]) (rule "1.prems")
        then show ?thesis
          using replaceFrom_Some_empty [OF Some [unfolded st] False, of tmpl] Cons sub wn tk
          by auto
      qed
    qed
  qed
qed

lemma count_avoid: "\<forall>c \<in> set w. P c \<Longrightarrow> \<not> P x \<Longrightarrow> count_list w x = 0"
  by (auto simp: count_list_0_iff)

lemma ms_Seq_Sat:
  "st' \<in> set (ms (Seq (Sat p) b) (pre, rest, caps)) \<Longrightarrow>
   \<exists>c cs. rest = c # cs \<and> p c \<and> st' \<in> set (ms b (c # pre, cs, caps))"
  by (auto split: list.splits if_splits)

lemma ms_Seq: "st'' \<in> set (ms (Seq a b) st) \<Longrightarrow> \<exists>st' \<in> set (ms a st). st'' \<in> set (ms b st')"
  by auto

lemma ms_Group:
  assumes "(pre', rest', caps') \<in> set (ms (Group i r) (pre, rest, caps))"
  shows "\<exists>caps0 w. sound r (pre, rest, caps) (pre', rest', caps0) w \<and> caps' = caps0(i \<mapsto> w)"
proof -
  from assms obtain caps0 where in0: "(pre', rest', caps0) \<in> set (ms r (pre, rest, caps))"
    and c: "caps' = caps0(i \<mapsto> take (length rest - length rest') rest)"
    by auto
  from ms_sound [OF in0] obtain w where w: "sound r (pre, rest, caps) (pre', rest', caps0) w" by blast
  then have "take (length rest - length rest') rest = w" by (simp add: sound_def span_def)
  with c w show ?thesis by auto
qed

lemma lit1: "lit [c] = Sat (\<lambda>d. d = c)"
  by (simp add: lit_def)

lemma ms_LineEnd: "st' \<in> set (ms LineEnd st) \<Longrightarrow> st' = st"
  by (cases st) (auto split: list.splits if_splits)

lemma match_avoid:
  assumes "matchAt r pre rest = Some (pre', rest', caps)" and "rest = w @ rest'"
    and "\<not> consumes r x"
  shows "count_list w x = 0" and "count_list (capture caps i) x = 0"
proof -
  from matchAt_span [OF assms(1)] obtain w' where "rest = w' @ rest'" "\<forall>c \<in> set w'. consumes r c"
    by blast
  with assms(2) have "\<forall>c \<in> set w. consumes r c" by simp
  then show "count_list w x = 0" using assms(3) by (rule count_avoid)
  show "count_list (capture caps i) x = 0"
    using matchAt_capture [OF assms(1), of i] assms(3) by (rule count_avoid)
qed

lemma ms_avoid:
  assumes "(pre', rest', caps) \<in> set (ms r (pre, rest, Map.empty))" and "rest = w @ rest'"
    and "\<not> consumes r x"
  shows "count_list w x = 0" and "count_list (capture caps i) x = 0"
proof -
  from ms_sound [OF assms(1)] obtain w' where s: "sound r (pre, rest, Map.empty) (pre', rest', caps) w'"
    by blast
  then have "rest = w' @ rest'" and c: "\<forall>c \<in> set w'. consumes r c" by (simp_all add: sound_def span_def)
  with assms(2) have "\<forall>c \<in> set w. consumes r c" by simp
  then show "count_list w x = 0" using assms(3) by (rule count_avoid)
  from s have "\<forall>s. caps i = Some s \<longrightarrow> (\<forall>c \<in> set s. consumes r c)" by (simp add: sound_def)
  then have "\<forall>c \<in> set (capture caps i). consumes r c"
    by (cases "caps i") (simp_all add: capture_def)
  then show "count_list (capture caps i) x = 0" using assms(3) by (rule count_avoid)
qed

subsection \<open>Syntax repair\<close>

text \<open>The last cleanup: \<open>,(\s*[}\]])\<close> replaced by \<open>$1\<close>\<close>

lemma trailingComma_match:
  assumes "matchAt trailingComma pre rest = Some (pre', rest', caps)" and "rest = w @ rest'"
  shows "\<exists>v. w = CHR '','' # v \<and> caps 1 = Some v"
proof -
  have eq: "trailingComma = Seq (Sat (\<lambda>d. d = CHR '','')) (Group 1 (Seq (Many isSpace) (Sat (oneOf ''}]''))))"
    by (simp add: trailingComma_def lit1)
  have "(pre', rest', caps) \<in> set (ms (Seq (Sat (\<lambda>d. d = CHR '','')) (Group 1 (Seq (Many isSpace) (Sat (oneOf ''}]'')))))
          (pre, rest, Map.empty))"
    using matchAt_in [OF assms(1)] unfolding eq .
  from ms_Seq_Sat [OF this] obtain cs where r: "rest = CHR '','' # cs"
    and g: "(pre', rest', caps) \<in> set (ms (Group 1 (Seq (Many isSpace) (Sat (oneOf ''}]'')))) (CHR '','' # pre, cs, Map.empty))"
    by blast
  from ms_Group [OF g] obtain caps0 v where "sound (Seq (Many isSpace) (Sat (oneOf ''}]''))) (CHR '','' # pre, cs, Map.empty) (pre', rest', caps0) v"
    and c: "caps = caps0(1 \<mapsto> v)" by blast
  then have "cs = v @ rest'" by (simp add: sound_def span_def)
  with r assms(2) have "w = CHR '','' # v" by simp
  with c show ?thesis by simp
qed

lemma subst_dollar1: "substitute (Suc 0) l w r caps ''$1'' = capture caps 1"
  by (simp add: isDigit_def digitVal_def)

lemma ngroups_trailingComma: "ngroups trailingComma = 1"
  by (simp add: trailingComma_def lit1)

lemma trailingComma_count:
  assumes "x \<noteq> CHR '',''"
  shows "count_list (replaceAll trailingComma ''$1'' s) x = count_list s x"
  unfolding replaceAll_def
proof (rule replaceFrom_count_eq [symmetric])
  fix pre rest pre' rest' caps w
  assume m: "matchAt trailingComma pre rest = Some (pre', rest', caps)" and r: "rest = w @ rest'"
  from trailingComma_match [OF m r] obtain v where "w = CHR '','' # v" "caps 1 = Some v" by blast
  then have "substitute (ngroups trailingComma) (rev pre) w rest' caps ''$1'' = v" and "count_list w x = count_list v x"
    using assms by (simp_all add: ngroups_trailingComma isDigit_def digitVal_def capture_def)
  then show "count_list w x = count_list (substitute (ngroups trailingComma) (rev pre) w rest' caps ''$1'') x"
    by simp
qed

text \<open>Fix 5: \<open>,(\s*}\s*;?\s*)$\<close> replaced by \<open>$1\<close>\<close>

lemma trailingCommaBeforeBrace_match:
  assumes "matchAt trailingCommaBeforeBrace pre rest = Some (pre', rest', caps)" and "rest = w @ rest'"
  shows "\<exists>v. w = CHR '','' # v \<and> caps 1 = Some v"
proof -
  let ?g = "seqs [Many isSpace, lit ''}'', Many isSpace, Maybe (oneOf '';''), Many isSpace]"
  have eq: "trailingCommaBeforeBrace = Seq (Sat (\<lambda>d. d = CHR '','')) (Seq (Group 1 ?g) LineEnd)"
    by (simp add: trailingCommaBeforeBrace_def lit1)
  have "(pre', rest', caps) \<in> set (ms (Seq (Sat (\<lambda>d. d = CHR '','')) (Seq (Group 1 ?g) LineEnd))
          (pre, rest, Map.empty))"
    using matchAt_in [OF assms(1)] unfolding eq .
  from ms_Seq_Sat [OF this] obtain cs where r: "rest = CHR '','' # cs"
    and g: "(pre', rest', caps) \<in> set (ms (Seq (Group 1 ?g) LineEnd) (CHR '','' # pre, cs, Map.empty))"
    by blast
  from ms_Seq [OF g] obtain mid where m1: "mid \<in> set (ms (Group 1 ?g) (CHR '','' # pre, cs, Map.empty))"
    and m2: "(pre', rest', caps) \<in> set (ms LineEnd mid)" by blast
  from ms_LineEnd [OF m2] m1
  have "(pre', rest', caps) \<in> set (ms (Group 1 ?g) (CHR '','' # pre, cs, Map.empty))" by simp
  from ms_Group [OF this] obtain caps0 v
    where "sound ?g (CHR '','' # pre, cs, Map.empty) (pre', rest', caps0) v"
    and c: "caps = caps0(1 \<mapsto> v)" by blast
  then have "cs = v @ rest'" by (simp add: sound_def span_def)
  with r assms(2) have "w = CHR '','' # v" by simp
  with c show ?thesis by simp
qed

lemma ngroups_trailingCommaBeforeBrace: "ngroups trailingCommaBeforeBrace = 1"
  by (simp add: trailingCommaBeforeBrace_def lit1)

lemma trailingCommaBeforeBrace_count:
  assumes "x \<noteq> CHR '',''"
  shows "count_list (replaceAll trailingCommaBeforeBrace ''$1'' s) x = count_list s x"
  unfolding replaceAll_def
proof (rule replaceFrom_count_eq [symmetric])
  fix pre rest pre' rest' caps w
  assume m: "matchAt trailingCommaBeforeBrace pre rest = Some (pre', rest', caps)" and r: "rest = w @ rest'"
  from trailingCommaBeforeBrace_match [OF m r] obtain v where "w = CHR '','' # v" "caps 1 = Some v" by blast
  then have "substitute (ngroups trailingCommaBeforeBrace) (rev pre) w rest' caps ''$1'' = v"
    and "count_list w x = count_list v x"
    using assms by (simp_all add: ngroups_trailingCommaBeforeBrace isDigit_def digitVal_def capture_def)
  then show "count_list w x = count_list (substitute (ngroups trailingCommaBeforeBrace) (rev pre) w rest' caps ''$1'') x"
    by simp
qed

text \<open>Fix 4: \<open>:\s*$\<close> replaced by \<open>: any\<close>\<close>

lemma incompleteTypes_count:
  assumes "isBracket x"
  shows "count_list (replaceAll incompleteTypes '': any'' s) x = count_list s x"
  unfolding replaceAll_def
proof (rule replaceFrom_count_eq [symmetric])
  fix pre rest pre' rest' caps w
  assume m: "matchAt incompleteTypes pre rest = Some (pre', rest', caps)" and r: "rest = w @ rest'"
  have "\<not> consumes incompleteTypes x"
    using assms by (auto simp: incompleteTypes_def lit1 isBracket_def isSpace_def)
  from match_avoid(1) [OF m r this] have "count_list w x = 0" .
  moreover have "count_list (substitute (ngroups incompleteTypes) (rev pre) w rest' caps '': any'') x = 0"
    using assms by (auto simp: isBracket_def)
  ultimately show "count_list w x = count_list (substitute (ngroups incompleteTypes) (rev pre) w rest' caps '': any'') x"
    by simp
qed

text \<open>Fix 1\<close>

lemma incompleteObject_avoid: "isBracket x \<Longrightarrow> \<not> consumes incompleteObjectPattern x"
  by (auto simp: incompleteObjectPattern_def declKeyword_def lit_def many1_def isBracket_def
      isSpace_def isWord_def nl_def)

lemma ngroups_incompleteObject: "ngroups incompleteObjectPattern = 3"
  by (simp add: incompleteObjectPattern_def declKeyword_def lit_def many1_def nl_def)

lemma subst_incompleteObject:
  "substitute 3 l w r caps objectReplacement
   = ''export '' @ capture caps 1 @ '' '' @ capture caps 2 @ '' = {'' @ nl @ ''  async '' @ capture caps 3"
  by (simp add: objectReplacement_def nl_def isDigit_def digitVal_def)

lemma bracket_cases:
  "isBracket x \<Longrightarrow> x = CHR ''{'' \<or> x = CHR ''}'' \<or> x = CHR ''('' \<or> x = CHR '')'' \<or> x = CHR ''['' \<or> x = CHR '']''"
  by (auto simp: isBracket_def)

lemma count_literal_tmpl:
  assumes "isBracket x" and "x \<noteq> CHR ''{''"
  shows "count_list (''export '' @ a @ '' '' @ b @ '' = {'' @ nl @ ''  async '' @ c) x
         = count_list a x + count_list b x + count_list c x"
  using bracket_cases [OF assms(1)] assms(2) by (elim disjE) (simp_all add: nl_def)

lemma count_literal_tmpl_open:
  "count_list (''export '' @ a @ '' '' @ b @ '' = {'' @ nl @ ''  async '' @ c) (CHR ''{'')
   = Suc (count_list a (CHR ''{'') + count_list b (CHR ''{'') + count_list c (CHR ''{''))"
  by (simp add: nl_def)

lemma incompleteObject_count:
  assumes "isBracket x" and "x \<noteq> CHR ''{''"
  shows "count_list (replaceAll incompleteObjectPattern objectReplacement s) x
         = count_list s x"
  unfolding replaceAll_def
proof (rule replaceFrom_count_eq [symmetric])
  fix pre rest pre' rest' caps w
  assume m: "matchAt incompleteObjectPattern pre rest = Some (pre', rest', caps)" and r: "rest = w @ rest'"
  note av = match_avoid [OF m r incompleteObject_avoid [OF assms(1)]]
  have "count_list (substitute (ngroups incompleteObjectPattern) (rev pre) w rest' caps
          objectReplacement) x = 0"
    unfolding ngroups_incompleteObject subst_incompleteObject count_literal_tmpl [OF assms]
    by (simp only: av)
  then show "count_list w x = count_list (substitute (ngroups incompleteObjectPattern) (rev pre) w rest' caps
          objectReplacement) x"
    using av(1) by simp
qed

lemma incompleteObject_count_open:
  "count_list s (CHR ''{'')
   \<le> count_list (replaceAll incompleteObjectPattern objectReplacement s) (CHR ''{'')"
  unfolding replaceAll_def
proof (rule replaceFrom_count_le)
  fix pre rest pre' rest' caps w
  assume m: "matchAt incompleteObjectPattern pre rest = Some (pre', rest', caps)" and r: "rest = w @ rest'"
  have "isBracket (CHR ''{'')" by (simp add: isBracket_def)
  note av = match_avoid [OF m r incompleteObject_avoid [OF this]]
  show "count_list w (CHR ''{'') \<le> count_list (substitute (ngroups incompleteObjectPattern) (rev pre) w rest' caps
          objectReplacement) (CHR ''{'')"
    unfolding ngroups_incompleteObject subst_incompleteObject count_literal_tmpl_open
    by (simp only: av)
qed

text \<open>Fix 3, first pattern: \<open>}\s*,?\s*\n\s*async\s+(\w+)\<close> replaced by \<open>},\n  async $1\<close>\<close>

lemma missingCommaBeforeMethod_eq:
  "missingCommaBeforeMethod = Seq (Sat (\<lambda>d. d = CHR ''}'')) afterBrace"
  by (simp add: missingCommaBeforeMethod_def afterBrace_def lit1)

lemma afterBrace_avoid: "isBracket x \<Longrightarrow> \<not> consumes afterBrace x"
  by (drule bracket_cases, elim disjE)
    (simp_all add: afterBrace_def lit_def many1_def isSpace_def isWord_def nl_def oneOf_def)

lemma ngroups_missingCommaBeforeMethod: "ngroups missingCommaBeforeMethod = 1"
  by (simp add: missingCommaBeforeMethod_def lit_def many1_def nl_def)

lemma subst_missingCommaBeforeMethod:
  "substitute 1 l w r caps methodReplacement = ''},'' @ nl @ ''  async '' @ capture caps 1"
  by (simp add: objectReplacement_def methodReplacement_def propertyReplacement_def nl_def
      isDigit_def digitVal_def)

lemma count_method_tmpl:
  "isBracket x \<Longrightarrow> count_list (''},'' @ nl @ ''  async '' @ a) x = count_list [CHR ''}''] x + count_list a x"
  by (drule bracket_cases, elim disjE) (simp_all add: nl_def)

lemma missingCommaBeforeMethod_count:
  assumes "isBracket x"
  shows "count_list (replaceAll missingCommaBeforeMethod methodReplacement s) x = count_list s x"
  unfolding replaceAll_def
proof (rule replaceFrom_count_eq [symmetric])
  fix pre rest pre' rest' caps w
  assume m: "matchAt missingCommaBeforeMethod pre rest = Some (pre', rest', caps)" and r: "rest = w @ rest'"
  have "(pre', rest', caps) \<in> set (ms (Seq (Sat (\<lambda>d. d = CHR ''}'')) afterBrace) (pre, rest, Map.empty))"
    using matchAt_in [OF m] unfolding missingCommaBeforeMethod_eq .
  from ms_Seq_Sat [OF this] obtain cs where rc: "rest = CHR ''}'' # cs"
    and g: "(pre', rest', caps) \<in> set (ms afterBrace (CHR ''}'' # pre, cs, Map.empty))"
    by blast
  from ms_sound [OF g] obtain v where "sound afterBrace (CHR ''}'' # pre, cs, Map.empty) (pre', rest', caps) v"
    by blast
  then have cs: "cs = v @ rest'" by (simp add: sound_def span_def)
  note av = ms_avoid [OF g cs afterBrace_avoid [OF assms]]
  from rc cs r have w: "w = CHR ''}'' # v" by simp
  have "count_list (substitute (ngroups missingCommaBeforeMethod) (rev pre) w rest' caps
          methodReplacement) x = count_list [CHR ''}''] x"
    unfolding ngroups_missingCommaBeforeMethod subst_missingCommaBeforeMethod count_method_tmpl [OF assms]
    by (simp only: av add_0_right)
  moreover have "count_list w x = count_list [CHR ''}''] x"
    unfolding w using av(1) by simp
  ultimately show "count_list w x = count_list (substitute (ngroups missingCommaBeforeMethod) (rev pre) w rest' caps
          methodReplacement) x"
    by simp
qed

text \<open>Fix 3, second pattern: \<open>(\w+:\s*[^,\n]+)\s*\n\s*(\w+:)\<close> replaced by \<open>$1,\n$2\<close>\<close>

lemma missingCommaPattern_eq:
  "missingCommaPattern =
     Seq (Group 1 propertyValue)
       (Seq (Many isSpace) (Seq (Sat (\<lambda>d. d = CHR 0x0A)) (Seq (Many isSpace) (Group 2 propertyKey))))"
  by (simp add: missingCommaPattern_def propertyValue_def propertyKey_def nl_def lit1)

lemma sound_caps_frame:
  "sound r st st' w \<Longrightarrow> i \<notin> groupIds r \<Longrightarrow> snd (snd st') i = snd (snd st) i"
  by (simp add: sound_def)

lemma sound_span: "sound r (pre, rest, caps) (pre', rest', caps') w \<Longrightarrow> rest = w @ rest'"
  by (simp add: sound_def span_def)

lemma sound_chars: "sound r st st' w \<Longrightarrow> \<not> consumes r x \<Longrightarrow> count_list w x = 0"
  by (rule count_avoid [of w "consumes r"]) (simp_all add: sound_def)

lemma groupIds_propertyKey: "groupIds propertyKey = {}"
  by (simp add: propertyKey_def many1_def lit1)

lemma missingCommaPattern_match:
  assumes "matchAt missingCommaPattern pre rest = Some (pre', rest', caps)" and "rest = w @ rest'"
    and "isBracket x"
  shows "\<exists>v1 v2. caps 1 = Some v1 \<and> caps 2 = Some v2 \<and> count_list w x = count_list v1 x + count_list v2 x"
proof -
  have "(pre', rest', caps) \<in> set (ms (Seq (Group 1 propertyValue)
       (Seq (Many isSpace) (Seq (Sat (\<lambda>d. d = CHR 0x0A)) (Seq (Many isSpace) (Group 2 propertyKey)))))
          (pre, rest, Map.empty))"
    using matchAt_in [OF assms(1)] unfolding missingCommaPattern_eq .
  from ms_Seq [OF this] obtain st1
    where a1: "st1 \<in> set (ms (Group 1 propertyValue) (pre, rest, Map.empty))"
      and b1: "(pre', rest', caps) \<in> set (ms (Seq (Many isSpace) (Seq (Sat (\<lambda>d. d = CHR 0x0A))
                 (Seq (Many isSpace) (Group 2 propertyKey)))) st1)"
    by blast
  obtain p1 r1 c1 where st1: "st1 = (p1, r1, c1)" by (cases st1) auto
  from ms_Group [OF a1 [unfolded st1]] obtain c0 v1
    where s1: "sound propertyValue (pre, rest, Map.empty) (p1, r1, c0) v1" and c1: "c1 = c0(1 \<mapsto> v1)"
    by blast
  from ms_Seq [OF b1] obtain st2 where a2: "st2 \<in> set (ms (Many isSpace) st1)"
      and b2: "(pre', rest', caps) \<in> set (ms (Seq (Sat (\<lambda>d. d = CHR 0x0A)) (Seq (Many isSpace) (Group 2 propertyKey))) st2)"
    by blast
  obtain p2 r2 c2 where st2: "st2 = (p2, r2, c2)" by (cases st2) auto
  from ms_sound [OF a2] obtain u2 where s2: "sound (Many isSpace) (p1, r1, c1) (p2, r2, c2) u2"
    unfolding st1 st2 by blast
  from ms_Seq [OF b2] obtain st3 where a3: "st3 \<in> set (ms (Sat (\<lambda>d. d = CHR 0x0A)) st2)"
      and b3: "(pre', rest', caps) \<in> set (ms (Seq (Many isSpace) (Group 2 propertyKey)) st3)"
    by blast
  obtain p3 r3 c3 where st3: "st3 = (p3, r3, c3)" by (cases st3) auto
  from ms_sound [OF a3] obtain u3 where s3: "sound (Sat (\<lambda>d. d = CHR 0x0A)) (p2, r2, c2) (p3, r3, c3) u3"
    unfolding st2 st3 by blast
  from ms_Seq [OF b3] obtain st4 where a4: "st4 \<in> set (ms (Many isSpace) st3)"
      and b4: "(pre', rest', caps) \<in> set (ms (Group 2 propertyKey) st4)"
    by blast
  obtain p4 r4 c4 where st4: "st4 = (p4, r4, c4)" by (cases st4) auto
  from ms_sound [OF a4] obtain u4 where s4: "sound (Many isSpace) (p3, r3, c3) (p4, r4, c4) u4"
    unfolding st3 st4 by blast
  from ms_Group [OF b4 [unfolded st4]] obtain c5 v2
    where s5: "sound propertyKey (p4, r4, c4) (pre', rest', c5) v2" and caps: "caps = c5(2 \<mapsto> v2)"
    by blast
  have nb: "\<not> isSpace x" "x \<noteq> CHR 0x0A"
    using bracket_cases [OF assms(3)] by (auto simp: isSpace_def)
  have "c2 1 = c1 1" using sound_caps_frame [OF s2, of 1] by simp
  moreover have "c3 1 = c2 1" using sound_caps_frame [OF s3, of 1] by simp
  moreover have "c4 1 = c3 1" using sound_caps_frame [OF s4, of 1] by simp
  moreover have "c5 1 = c4 1" using sound_caps_frame [OF s5, of 1] by (simp add: groupIds_propertyKey)
  ultimately have k1: "caps 1 = Some v1" using c1 caps by simp
  have k2: "caps 2 = Some v2" using caps by simp
  have "rest = v1 @ u2 @ u3 @ u4 @ v2 @ rest'"
    using sound_span [OF s1] sound_span [OF s2] sound_span [OF s3] sound_span [OF s4] sound_span [OF s5]
    by simp
  with assms(2) have w: "w = v1 @ u2 @ u3 @ u4 @ v2" by simp
  have "count_list u2 x = 0" using sound_chars [OF s2] nb by simp
  moreover have "count_list u3 x = 0" using sound_chars [OF s3] nb by simp
  moreover have "count_list u4 x = 0" using sound_chars [OF s4] nb by simp
  ultimately have "count_list w x = count_list v1 x + count_list v2 x" unfolding w by simp
  with k1 k2 show ?thesis by blast
qed

lemma ngroups_missingCommaPattern: "ngroups missingCommaPattern = 2"
  by (simp add: missingCommaPattern_def lit_def many1_def nl_def)

lemma subst_missingCommaPattern:
  "substitute 2 l w r caps propertyReplacement = capture caps 1 @ '','' @ nl @ capture caps 2"
  by (simp add: objectReplacement_def methodReplacement_def propertyReplacement_def nl_def
      isDigit_def digitVal_def)

lemma missingCommaPattern_count:
  assumes "isBracket x"
  shows "count_list (replaceAll missingCommaPattern propertyReplacement s) x = count_list s x"
  unfolding replaceAll_def
proof (rule replaceFrom_count_eq [symmetric])
  fix pre rest pre' rest' caps w
  assume m: "matchAt missingCommaPattern pre rest = Some (pre', rest', caps)" and r: "rest = w @ rest'"
  from missingCommaPattern_match [OF m r assms] obtain v1 v2
    where k: "caps 1 = Some v1" "caps 2 = Some v2" "count_list w x = count_list v1 x + count_list v2 x"
    by blast
  have nb: "x \<noteq> CHR '',''" "x \<noteq> CHR 0x0A" using bracket_cases [OF assms] by auto
  show "count_list w x = count_list (substitute (ngroups missingCommaPattern) (rev pre) w rest' caps
          propertyReplacement) x"
    unfolding ngroups_missingCommaPattern subst_missingCommaPattern
    using k nb by (simp add: capture_def nl_def)
qed

text \<open>Lines\<close>

lemma splitOn_nonempty: "splitOn c s \<noteq> []"
  by (induction s) (auto split: list.splits)

lemma joinWith_Cons: "joinWith sep (y # ys) = y @ concat (map (\<lambda>z. sep @ z) ys)"
  by (simp add: joinWith_def)

lemma joinWith_Cons2: "joinWith sep (y # z # zs) = y @ sep @ joinWith sep (z # zs)"
  by (simp add: joinWith_def)

lemma join_split: "joinWith [c] (splitOn c s) = s"
proof (induction s)
  case Nil
  show ?case by (simp add: joinWith_def)
next
  case (Cons a s)
  obtain l ls where sp: "splitOn c s = l # ls"
    using splitOn_nonempty [of c s] by (cases "splitOn c s") auto
  show ?case
  proof (cases "a = c")
    case True
    then show ?thesis using Cons sp by (simp add: joinWith_Cons)
  next
    case False
    then show ?thesis using Cons sp by (simp add: joinWith_Cons)
  qed
qed

lemma semicolonLine_count:
  "x \<noteq> CHR '';'' \<Longrightarrow> count_list (fst (semicolonLine i l n)) x = count_list l x"
  by (simp add: semicolonLine_def Let_def)

lemma semicolonLines_count:
  assumes "x \<noteq> CHR '';''"
  shows "count_list (joinWith sep (fst (semicolonLines i ls))) x = count_list (joinWith sep ls) x"
proof (induction ls arbitrary: i)
  case Nil
  show ?case by simp
next
  case (Cons l ls)
  obtain l' fx where a: "semicolonLine i l (case ls of [] \<Rightarrow> [] | m # _ \<Rightarrow> trim m) = (l', fx)"
    by (cases "semicolonLine i l (case ls of [] \<Rightarrow> [] | m # _ \<Rightarrow> trim m)") auto
  obtain ls' fxs where b: "semicolonLines (i + 1) ls = (ls', fxs)"
    by (cases "semicolonLines (i + 1) ls") auto
  have l': "count_list l' x = count_list l x"
    using semicolonLine_count [OF assms, of i l "case ls of [] \<Rightarrow> [] | m # _ \<Rightarrow> trim m"] a by simp
  have ih: "count_list (joinWith sep ls') x = count_list (joinWith sep ls) x"
    using Cons.IH [of "i + 1"] b by simp
  have res: "fst (semicolonLines i (l # ls)) = l' # ls'" using a b by (simp add: Let_def)
  show ?case
  proof (cases ls)
    case Nil
    then have "ls' = []" using b by simp
    then show ?thesis using Nil res l' by (simp add: joinWith_def)
  next
    case (Cons m ms)
    then obtain m' ms' where "ls' = m' # ms'" using b
      by (cases ls') (auto simp: Let_def split: prod.splits)
    then show ?thesis using Cons res l' ih by (simp add: joinWith_Cons2)
  qed
qed

lemma fixSemicolons_count:
  assumes "x \<noteq> CHR '';''"
  shows "count_list (fst (fixSemicolons flag s)) x = count_list s x"
proof -
  have "count_list (joinWith nl (fst (semicolonLines 0 (splitOn (CHR 0x0A) s)))) x = count_list s x"
    using semicolonLines_count [OF assms, of nl 0 "splitOn (CHR 0x0A) s"] join_split [of "CHR 0x0A" s]
    by (simp add: nl_def)
  then show ?thesis
    by (cases "semicolonLines 0 (splitOn (CHR 0x0A) s)") (simp add: fixSemicolons_def Let_def)
qed

text \<open>Fixes 1 to 5 together\<close>

lemma bracket_not_sep: "isBracket x \<Longrightarrow> x \<noteq> CHR '';'' \<and> x \<noteq> CHR '',''"
  by (drule bracket_cases) auto

lemma fixIncompleteObject_count:
  "isBracket x \<Longrightarrow> x \<noteq> CHR ''{'' \<Longrightarrow> count_list (fst (fixIncompleteObject s)) x = count_list s x"
  by (simp add: fixIncompleteObject_def incompleteObject_count)

lemma fixIncompleteObject_count_open:
  "count_list s (CHR ''{'') \<le> count_list (fst (fixIncompleteObject s)) (CHR ''{'')"
  by (simp add: fixIncompleteObject_def incompleteObject_count_open)

lemma fixCommas_count: "isBracket x \<Longrightarrow> count_list (fst (fixCommas s)) x = count_list s x"
  by (simp add: fixCommas_def Let_def missingCommaPattern_count missingCommaBeforeMethod_count)

lemma fixTypes_count: "isBracket x \<Longrightarrow> count_list (fst (fixTypes s)) x = count_list s x"
  by (simp add: fixTypes_def incompleteTypes_count)

lemma beforeBalance_content:
  "fst (beforeBalance language s) =
     replaceAll trailingCommaBeforeBrace ''$1''
       ((if language = ''typescript'' then (\<lambda>c. fst (fixTypes c)) else id)
         ((if isScript language then (\<lambda>c. fst (fixCommas c)) else id)
           ((if isScript language
             then (\<lambda>c. fst (fixSemicolons (snd (snd (fixIncompleteObject s))) c)) else id)
             ((if isScript language then (\<lambda>c. fst (fixIncompleteObject c)) else id) s))))"
  by (simp add: beforeBalance_def Let_def split: prod.splits)

lemma preBalance_count:
  assumes "isBracket x" and "x \<noteq> CHR ''{''"
  shows "count_list (preBalance language s) x = count_list s x"
  using assms bracket_not_sep [OF assms(1)]
  by (simp add: preBalance_def beforeBalance_content trailingCommaBeforeBrace_count fixTypes_count
      fixCommas_count fixSemicolons_count fixIncompleteObject_count)

lemma preBalance_count_open:
  "count_list s (CHR ''{'') \<le> count_list (preBalance language s) (CHR ''{'')"
proof -
  have b: "isBracket (CHR ''{'')" by (simp add: isBracket_def)
  show ?thesis
    using fixIncompleteObject_count_open [of s]
    by (simp add: preBalance_def beforeBalance_content trailingCommaBeforeBrace_count fixTypes_count [OF b]
        fixCommas_count [OF b] fixSemicolons_count)
qed

lemma count_replicate: "count_list (replicate n c) x = (if x = c then n else 0)"
  by (induction n) auto

lemma count_dropWhile: "\<not> P x \<Longrightarrow> count_list (dropWhile P s) x = count_list s x"
  by (induction s) auto

lemma count_trimEnd: "\<not> isSpace x \<Longrightarrow> count_list (trimEnd s) x = count_list s x"
  by (simp add: trimEnd_def count_dropWhile)

lemma bracket_not_space: "isBracket x \<Longrightarrow> \<not> isSpace x \<and> x \<noteq> CHR 0x0A \<and> x \<noteq> CHR '';''"
  by (drule bracket_cases) (auto simp: isSpace_def)

lemma balanceBraces_count:
  assumes "isBracket x"
  shows "count_list (fst (balanceBraces f)) x
         = count_list f x + (if x = CHR ''}'' then bracesAdded f else 0)"
  using bracket_cases [OF assms]
  by (elim disjE)
    (simp_all add: balanceBraces_def bracesAdded_def Let_def count_trimEnd count_replicate nl_def
      isSpace_def)

lemma balanceBrackets_content:
  "fst (balanceBrackets f) =
     fst (balanceBraces f)
     @ replicate (count_list f (CHR ''('') - count_list f (CHR '')'')) (CHR '')'')
     @ replicate (count_list f (CHR ''['') - count_list f (CHR '']'')) (CHR '']'')"
  by (simp add: balanceBrackets_def Let_def split: prod.splits)

lemma balanceBrackets_count:
  assumes "isBracket x"
  shows "count_list (fst (balanceBrackets f)) x
         = count_list f x + (if x = CHR ''}'' then bracesAdded f else 0)
           + (if x = CHR '')'' then count_list f (CHR ''('') - count_list f (CHR '')'') else 0)
           + (if x = CHR '']'' then count_list f (CHR ''['') - count_list f (CHR '']'') else 0)"
  by (simp add: balanceBrackets_content balanceBraces_count [OF assms] count_replicate)

lemma repaired_eq:
  "repaired language s = replaceAll trailingComma ''$1'' (fst (balanceBrackets (preBalance language s)))"
  by (simp add: repaired_def syntaxFixSteps_def preBalance_def Let_def split: prod.splits)

lemma repaired_count:
  assumes "isBracket x"
  shows "count_list (repaired language s) x
         = count_list (preBalance language s) x
           + (if x = CHR ''}'' then bracesAdded (preBalance language s) else 0)
           + (if x = CHR '')'' then count_list (preBalance language s) (CHR ''('')
                                     - count_list (preBalance language s) (CHR '')'') else 0)
           + (if x = CHR '']'' then count_list (preBalance language s) (CHR ''['')
                                     - count_list (preBalance language s) (CHR '']'') else 0)"
  using bracket_not_sep [OF assms]
  by (simp add: repaired_eq trailingComma_count balanceBrackets_count [OF assms])

lemma brackets: "isBracket (CHR ''{'')" "isBracket (CHR ''}'')" "isBracket (CHR ''('')"
  "isBracket (CHR '')'')" "isBracket (CHR ''['')" "isBracket (CHR '']'')"
  by (simp_all add: isBracket_def)

lemma repaired_parens:
  "count_list (repaired language s) (CHR ''('') = count_list s (CHR ''('')"
  "count_list (repaired language s) (CHR '')'') = max (count_list s (CHR ''('')) (count_list s (CHR '')''))"
  by (simp_all add: repaired_count brackets preBalance_count)

lemma repaired_squares:
  "count_list (repaired language s) (CHR ''['') = count_list s (CHR ''['')"
  "count_list (repaired language s) (CHR '']'') = max (count_list s (CHR ''['')) (count_list s (CHR '']''))"
  by (simp_all add: repaired_count brackets preBalance_count)

lemma repaired_braces:
  "count_list (repaired language s) (CHR ''{'') = count_list (preBalance language s) (CHR ''{'')"
  "count_list (repaired language s) (CHR ''}'') = count_list s (CHR ''}'') + bracesAdded (preBalance language s)"
  by (simp_all add: repaired_count brackets preBalance_count)

lemma attemptSyntaxFix_Text:
  "content (attemptSyntaxFix (Text s) filePath language) = Text (repaired language s)"
  by (simp add: attemptSyntaxFix_def repaired_def split: prod.splits)

text \<open>
  C2, as stated, fails: closing tokens are appended, never removed, so a surplus of
  closing tokens stays. The content \<open>}\<close> is returned as it is.
\<close>

theorem repair_bracket_balance_counterexample:
  "content (attemptSyntaxFix (Text ''}'') ''a.js'' ''javascript'') = Text ''}'' \<and>
   count_list ''}'' (CHR ''{'') \<noteq> count_list ''}'' (CHR ''}'')"
  by code_simp

text \<open>
  C2, amended. For an input with no more \<open>)\<close> than \<open>(\<close> the returned content has as
  many \<open>(\<close> as \<open>)\<close>, and likewise for \<open>[\<close> and \<open>]\<close>. For an input with no more
  \<open>}\<close> than \<open>{\<close> it has as many \<open>{\<close> as \<open>}\<close>, unless the balance step finds the
  last non-empty line to be \<open>}\<close> or \<open>},\<close> while more than one brace is missing (it
  then appends a single \<open>};\<close>). For every input the returned content has at least as
  many \<open>)\<close> as \<open>(\<close> and at least as many \<open>]\<close> as \<open>[\<close>, and closing tokens are
  never removed: it has at least as many \<open>)\<close>, as many \<open>]\<close> and as many \<open>}\<close> as the
  input.
\<close>

theorem repair_bracket_balance:
  assumes "content (attemptSyntaxFix (Text c) filePath language) = Text out"
  shows "(count_list c (CHR '')'') \<le> count_list c (CHR ''('') \<longrightarrow>
            count_list out (CHR ''('') = count_list out (CHR '')'')) \<and>
         (count_list c (CHR '']'') \<le> count_list c (CHR ''['') \<longrightarrow>
            count_list out (CHR ''['') = count_list out (CHR '']'')) \<and>
         (count_list c (CHR ''}'') \<le> count_list c (CHR ''{'') \<and>
          \<not> (smartClosing (preBalance language c) \<and>
             Suc (count_list (preBalance language c) (CHR ''}'')) < count_list (preBalance language c) (CHR ''{'')) \<longrightarrow>
            count_list out (CHR ''{'') = count_list out (CHR ''}'')) \<and>
         count_list out (CHR ''('') \<le> count_list out (CHR '')'') \<and>
         count_list out (CHR ''['') \<le> count_list out (CHR '']'') \<and>
         count_list c (CHR '')'') \<le> count_list out (CHR '')'') \<and>
         count_list c (CHR '']'') \<le> count_list out (CHR '']'') \<and>
         count_list c (CHR ''}'') \<le> count_list out (CHR ''}'')"
proof -
  have out: "out = repaired language c" using assms by (simp add: attemptSyntaxFix_Text)
  have f: "count_list (preBalance language c) (CHR ''}'') = count_list c (CHR ''}'')"
    by (simp add: preBalance_count brackets)
  show ?thesis
    unfolding out repaired_parens repaired_squares repaired_braces
    using preBalance_count_open [of c language] f
    by (auto simp: bracesAdded_def)
qed

theorem repair_bracket_balance_witness:
  "content (attemptSyntaxFix (Text openCall) ''a.js'' ''javascript'') = Text (''{ f(1, [2'' @ nl @ ''})]'') \<and>
   count_list (''{ f(1, [2'' @ nl @ ''})]'') (CHR ''('') = count_list (''{ f(1, [2'' @ nl @ ''})]'') (CHR '')'') \<and>
   count_list (''{ f(1, [2'' @ nl @ ''})]'') (CHR ''['') = count_list (''{ f(1, [2'' @ nl @ ''})]'') (CHR '']'') \<and>
   count_list (''{ f(1, [2'' @ nl @ ''})]'') (CHR ''{'') = count_list (''{ f(1, [2'' @ nl @ ''})]'') (CHR ''}'') \<and>
   count_list openCall (CHR '')'') \<le> count_list (''{ f(1, [2'' @ nl @ ''})]'') (CHR '')'') \<and>
   count_list openCall (CHR '']'') \<le> count_list (''{ f(1, [2'' @ nl @ ''})]'') (CHR '']'') \<and>
   count_list openCall (CHR ''}'') \<le> count_list (''{ f(1, [2'' @ nl @ ''})]'') (CHR ''}'')"
proof -
  have run: "content (attemptSyntaxFix (Text openCall) ''a.js'' ''javascript'') = Text (''{ f(1, [2'' @ nl @ ''})]'')"
    by code_simp
  have plain: "\<not> smartClosing (preBalance ''javascript'' openCall)"
    by code_simp
  have input: "count_list openCall (CHR '')'') \<le> count_list openCall (CHR ''('')"
    "count_list openCall (CHR '']'') \<le> count_list openCall (CHR ''['')"
    "count_list openCall (CHR ''}'') \<le> count_list openCall (CHR ''{'')"
    by (simp_all add: openCall_def)
  show ?thesis using repair_bracket_balance [OF run] plain input run by blast
qed

lemma semicolonLine_fixes: "d \<in> set (snd (semicolonLine i l n)) \<Longrightarrow> \<not> isClosingFix d"
  by (auto simp: semicolonLine_def Let_def isClosingFix_def split: if_splits)

lemma semicolonLines_fixes: "d \<in> set (snd (semicolonLines i ls)) \<Longrightarrow> \<not> isClosingFix d"
proof (induction ls arbitrary: i)
  case Nil
  then show ?case by simp
next
  case (Cons l ls)
  obtain l' fx where a: "semicolonLine i l (case ls of [] \<Rightarrow> [] | m # _ \<Rightarrow> trim m) = (l', fx)"
    by (cases "semicolonLine i l (case ls of [] \<Rightarrow> [] | m # _ \<Rightarrow> trim m)") auto
  obtain ls' fxs where b: "semicolonLines (i + 1) ls = (ls', fxs)"
    by (cases "semicolonLines (i + 1) ls") auto
  have "snd (semicolonLines i (l # ls)) = fx @ fxs" using a b by (simp add: Let_def)
  with Cons.prems have "d \<in> set fx \<or> d \<in> set fxs" by simp
  then show ?case
  proof
    assume "d \<in> set fx"
    then show ?thesis
      using semicolonLine_fixes [of d i l "case ls of [] \<Rightarrow> [] | m # _ \<Rightarrow> trim m"] a by simp
  next
    assume "d \<in> set fxs"
    then show ?thesis using Cons.IH [of "i + 1"] b by simp
  qed
qed

lemma fixSemicolons_fixes: "d \<in> set (fst (snd (fixSemicolons flag s))) \<Longrightarrow> \<not> isClosingFix d"
  using semicolonLines_fixes [of d 0 "splitOn (CHR 0x0A) s"]
  by (cases "semicolonLines 0 (splitOn (CHR 0x0A) s)") (simp add: fixSemicolons_def Let_def)

lemma fixIncompleteObject_fixes: "d \<in> set (fst (snd (fixIncompleteObject s))) \<Longrightarrow> \<not> isClosingFix d"
  by (auto simp: fixIncompleteObject_def isClosingFix_def split: if_splits)

lemma fixCommas_fixes: "d \<in> set (fst (snd (fixCommas s))) \<Longrightarrow> \<not> isClosingFix d"
  by (auto simp: fixCommas_def Let_def isClosingFix_def split: if_splits)

lemma fixTypes_fixes: "d \<in> set (fst (snd (fixTypes s))) \<Longrightarrow> \<not> isClosingFix d"
  by (auto simp: fixTypes_def isClosingFix_def split: if_splits)

lemma beforeBalance_fixes:
  assumes "d \<in> set (fst (snd (beforeBalance language s)))"
  shows "\<not> isClosingFix d"
proof -
  obtain c1 f1 w1 where e1: "(if isScript language then fixIncompleteObject s else (s, [], False)) = (c1, f1, w1)"
    by (metis prod_cases3)
  obtain c2 f2 w2 where e2: "(if isScript language then fixSemicolons w1 c1 else (c1, [], w1)) = (c2, f2, w2)"
    by (metis prod_cases3)
  obtain c3 f3 w3 where e3: "(if isScript language then fixCommas c2 else (c2, [], False)) = (c3, f3, w3)"
    by (metis prod_cases3)
  obtain c4 f4 w4 where e4: "(if language = ''typescript'' then fixTypes c3 else (c3, [], False)) = (c4, f4, w4)"
    by (metis prod_cases3)
  have "fst (snd (beforeBalance language s)) = f1 @ f2 @ f3 @ f4"
    using e1 e2 e3 e4 by (simp add: beforeBalance_def Let_def)
  with assms have "d \<in> set f1 \<or> d \<in> set f2 \<or> d \<in> set f3 \<or> d \<in> set f4" by auto
  moreover have "d \<in> set f1 \<Longrightarrow> \<not> isClosingFix d"
    using e1 fixIncompleteObject_fixes [of d s] by (auto split: if_splits)
  moreover have "d \<in> set f2 \<Longrightarrow> \<not> isClosingFix d"
    using e2 fixSemicolons_fixes [of d w1 c1] by (auto split: if_splits)
  moreover have "d \<in> set f3 \<Longrightarrow> \<not> isClosingFix d"
    using e3 fixCommas_fixes [of d c2] by (auto split: if_splits)
  moreover have "d \<in> set f4 \<Longrightarrow> \<not> isClosingFix d"
    using e4 fixTypes_fixes [of d c3] by (auto split: if_splits)
  ultimately show ?thesis by blast
qed

lemma balanceBrackets_fixes:
  assumes "count_list f (CHR ''('') \<le> count_list f (CHR '')'')"
    and "count_list f (CHR ''['') \<le> count_list f (CHR '']'')"
  shows "d \<in> set (fst (snd (balanceBrackets f))) \<Longrightarrow> \<not> isClosingFix d"
  using assms
  by (auto simp: balanceBrackets_def balanceBraces_def Let_def isClosingFix_def split: prod.splits if_splits)

lemma attemptSyntaxFix_fixes:
  "fixList (attemptSyntaxFix (Text s) filePath language)
   = fst (snd (beforeBalance language s)) @ fst (snd (balanceBrackets (preBalance language s)))"
  by (simp add: attemptSyntaxFix_def syntaxFixSteps_def preBalance_def Let_def split: prod.splits)

lemma repaired_closed:
  "count_list (repaired language s) (CHR ''('') \<le> count_list (repaired language s) (CHR '')'')"
  "count_list (repaired language s) (CHR ''['') \<le> count_list (repaired language s) (CHR '']'')"
  by (simp_all add: repaired_parens repaired_squares)

text \<open>
  C1, as stated, fails. Three open braces followed by a line \<open>}\<close> get one \<open>};\<close> from
  the first run and one more \<open>}\<close> from the second; and of three properties without
  commas the first run separates only the first two (the match of the comma expression
  consumes the next key), leaving the second run a fix to report.
\<close>

theorem repair_idempotent_counterexample:
  "fixed (smartFix (content (smartFix (Text threeBraces) ''a.js'')) ''a.js'') \<and>
   fixed (smartFix (content (smartFix (Text threeProps) ''a.js'')) ''a.js'')"
  by code_simp

text \<open>
  C1, amended. Repair is idempotent for parentheses and square brackets: run on the
  content that a first run returned, it reports no missing closing parenthesis and no
  missing closing square bracket, and returns a content with as many \<open>)\<close> and \<open>]\<close> as
  it was given.
\<close>

theorem repair_second_run_closes_nothing:
  assumes "content (attemptSyntaxFix (Text c) filePath language) = Text out"
  shows "(\<forall>d \<in> set (fixList (attemptSyntaxFix (Text out) filePath' language')). \<not> isClosingFix d) \<and>
         (\<forall>out2. content (attemptSyntaxFix (Text out) filePath' language') = Text out2 \<longrightarrow>
            count_list out2 (CHR '')'') = count_list out (CHR '')'') \<and>
            count_list out2 (CHR '']'') = count_list out (CHR '']''))"
proof -
  have out: "out = repaired language c" using assms by (simp add: attemptSyntaxFix_Text)
  have p: "count_list (preBalance language' out) (CHR ''('') \<le> count_list (preBalance language' out) (CHR '')'')"
    using repaired_closed(1) [of language c] by (simp add: preBalance_count brackets out)
  have q: "count_list (preBalance language' out) (CHR ''['') \<le> count_list (preBalance language' out) (CHR '']'')"
    using repaired_closed(2) [of language c] by (simp add: preBalance_count brackets out)
  have "\<forall>d \<in> set (fixList (attemptSyntaxFix (Text out) filePath' language')). \<not> isClosingFix d"
    using beforeBalance_fixes balanceBrackets_fixes [OF p q]
    by (auto simp: attemptSyntaxFix_fixes)
  moreover have "count_list (repaired language' out) (CHR '')'') = count_list out (CHR '')'')"
    "count_list (repaired language' out) (CHR '']'') = count_list out (CHR '']'')"
    using repaired_closed [of language c] by (simp_all add: repaired_parens repaired_squares out)
  ultimately show ?thesis by (simp add: attemptSyntaxFix_Text)
qed

theorem repair_second_run_closes_nothing_witness:
  "content (attemptSyntaxFix (Text nestedCall) ''a.js'' ''javascript'') = Text nestedCallOnce \<and>
   fixList (attemptSyntaxFix (Text nestedCallOnce) ''a.js'' ''javascript'') = [MissingClosingBrace 1] \<and>
   list_all (\<lambda>d. \<not> isClosingFix d) (fixList (attemptSyntaxFix (Text nestedCallOnce) ''a.js'' ''javascript'')) \<and>
   count_list (nestedCallOnce @ nl @ ''}'') (CHR '')'') = count_list nestedCallOnce (CHR '')'')"
proof -
  have run: "content (attemptSyntaxFix (Text nestedCall) ''a.js'' ''javascript'') = Text nestedCallOnce"
    by code_simp
  have again: "content (attemptSyntaxFix (Text nestedCallOnce) ''a.js'' ''javascript'') = Text (nestedCallOnce @ nl @ ''}'')"
    by code_simp
  have reported: "fixList (attemptSyntaxFix (Text nestedCallOnce) ''a.js'' ''javascript'') = [MissingClosingBrace 1]"
    by code_simp
  show ?thesis
    using repair_second_run_closes_nothing [OF run, of "''a.js''" "''javascript''"] run again reported
    by (simp add: list_all_iff)
qed

text \<open>
  C8. \<open>attemptSyntaxFix\<close> returns a result for every content, path and language. When
  its \<open>try\<close> block fails (the result carries an error message), the result has
  \<open>fixed = false\<close>, \<open>shouldCommit = false\<close> and the content it was given; on a string
  the block never fails.
\<close>

theorem attemptSyntaxFix_never_throws:
  "(errors (attemptSyntaxFix content0 filePath language) \<noteq> [] \<longrightarrow>
      \<not> fixed (attemptSyntaxFix content0 filePath language) \<and>
      content (attemptSyntaxFix content0 filePath language) = content0 \<and>
      \<not> shouldCommit (attemptSyntaxFix content0 filePath language)) \<and>
   (\<forall>s. content0 = Text s \<longrightarrow> errors (attemptSyntaxFix content0 filePath language) = [])"
  by (cases content0) (simp_all add: attemptSyntaxFix_def split: prod.splits)

theorem attemptSyntaxFix_never_throws_witness:
  "errors (attemptSyntaxFix NotText ''a.js'' ''javascript'') \<noteq> [] \<and>
   \<not> fixed (attemptSyntaxFix NotText ''a.js'' ''javascript'') \<and>
   content (attemptSyntaxFix NotText ''a.js'' ''javascript'') = NotText \<and>
   errors (attemptSyntaxFix (Text openCall) ''a.js'' ''javascript'') = []"
proof -
  have e: "errors (attemptSyntaxFix NotText ''a.js'' ''javascript'') \<noteq> []"
    by (simp add: attemptSyntaxFix_def)
  show ?thesis
    using attemptSyntaxFix_never_throws [of NotText "''a.js''" "''javascript''"]
      attemptSyntaxFix_never_throws [of "Text openCall" "''a.js''" "''javascript''"] e
    by simp
qed

subsection \<open>Naming repair\<close>

lemma flagTypos_high:
  "t \<in> set (flagTypos fileName exports attempts) \<and> confidence t = High \<longleftrightarrow>
   (\<exists>decl \<in> set exports. \<exists>attempt \<in> set attempts. \<exists>importedName \<in> set (importedNames attempt).
      t = highTypo fileName decl attempt importedName \<and>
      stringSimilarity (exp_name decl) importedName < 1 / 2 \<and>
      stringSimilarity importedName fileName > 7 / 10)"
  by (auto simp: flagTypos_def checkImportedName_def Let_def highTypo_def mediumTypo_def)

lemma update_subset: "set (AList.update k v m) \<subseteq> insert (k, v) (set m)"
  by (induction m) auto

lemma keepBest_subset: "snd ` set (keepBest m t) \<subseteq> insert t (snd ` set m)"
  using update_subset [of "original t @ suggested t" t m]
  by (auto simp: keepBest_def Let_def split: option.splits if_splits)

lemma foldl_keepBest_subset: "snd ` set (foldl keepBest m ts) \<subseteq> snd ` set m \<union> set ts"
proof (induction ts arbitrary: m)
  case Nil
  show ?case by simp
next
  case (Cons t ts)
  show ?case using Cons [of "keepBest m t"] keepBest_subset [of m t] by auto
qed

text \<open>Every entry of the map is stored under the concatenation of its two names, and
  no key is stored twice.\<close>

definition keyed :: "(string \<times> typo) list \<Rightarrow> bool" where
  "keyed m \<longleftrightarrow> distinct (map fst m) \<and> list_all (\<lambda>(k, u). k = original u @ suggested u) m"

lemma keyed_keepBest: "keyed m \<Longrightarrow> keyed (keepBest m t)"
  using update_subset [of "original t @ suggested t" t m]
  by (auto simp: keyed_def keepBest_def Let_def list_all_iff distinct_update
      split: option.splits if_splits)

lemma keyed_foldl: "keyed m \<Longrightarrow> keyed (foldl keepBest m ts)"
  by (induction ts arbitrary: m) (simp_all add: keyed_keepBest)

lemma keepBest_keeps:
  "map_of m k = Some u \<Longrightarrow>
   \<exists>u'. map_of (keepBest m t) k = Some u' \<and>
         confidenceOrder (confidence u) \<le> confidenceOrder (confidence u')"
  by (auto simp: keepBest_def Let_def update_conv' split: option.splits)

lemma keepBest_adds:
  "\<exists>u'. map_of (keepBest m t) (original t @ suggested t) = Some u' \<and>
         confidenceOrder (confidence t) \<le> confidenceOrder (confidence u')"
  by (auto simp: keepBest_def Let_def update_conv' split: option.splits)

lemma foldl_keepBest_keeps:
  "map_of m k = Some u \<Longrightarrow>
   \<exists>u'. map_of (foldl keepBest m ts) k = Some u' \<and>
         confidenceOrder (confidence u) \<le> confidenceOrder (confidence u')"
proof (induction ts arbitrary: m u)
  case Nil
  then show ?case by simp
next
  case (Cons t ts)
  from keepBest_keeps [OF Cons.prems, of t] obtain u1
    where u1: "map_of (keepBest m t) k = Some u1"
      and le1: "confidenceOrder (confidence u) \<le> confidenceOrder (confidence u1)" by blast
  from Cons.IH [OF u1] obtain u'
    where "map_of (foldl keepBest (keepBest m t) ts) k = Some u'"
      and "confidenceOrder (confidence u1) \<le> confidenceOrder (confidence u')" by blast
  with le1 show ?case by auto
qed

lemma foldl_keepBest_adds:
  "t \<in> set ts \<Longrightarrow>
   \<exists>u'. map_of (foldl keepBest m ts) (original t @ suggested t) = Some u' \<and>
         confidenceOrder (confidence t) \<le> confidenceOrder (confidence u')"
proof (induction ts arbitrary: m)
  case Nil
  then show ?case by simp
next
  case (Cons s ts)
  show ?case
  proof (cases "t = s")
    case True
    from keepBest_adds [of m t] obtain u1
      where u1: "map_of (keepBest m t) (original t @ suggested t) = Some u1"
        and le1: "confidenceOrder (confidence t) \<le> confidenceOrder (confidence u1)" by blast
    from foldl_keepBest_keeps [OF u1, of ts] le1 True show ?thesis by auto
  next
    case False
    then have "t \<in> set ts" using Cons.prems by simp
    from Cons.IH [OF this, of "keepBest m s"] show ?thesis by simp
  qed
qed

lemma confidence_High: "confidenceOrder High \<le> confidenceOrder c \<Longrightarrow> c = High"
  by (cases c) (simp_all add: confidenceOrder_def)

lemma keepBest_high:
  assumes "t \<in> set ts" and "confidence t = High"
  shows "\<exists>u \<in> snd ` set (foldl keepBest [] ts).
           confidence u = High \<and> original u @ suggested u = original t @ suggested t"
proof -
  from foldl_keepBest_adds [OF assms(1), of "[]"] obtain u
    where u: "map_of (foldl keepBest [] ts) (original t @ suggested t) = Some u"
      and le: "confidenceOrder (confidence t) \<le> confidenceOrder (confidence u)" by blast
  have mem: "(original t @ suggested t, u) \<in> set (foldl keepBest [] ts)"
    using u by (rule map_of_SomeD)
  have "keyed (foldl keepBest [] ts)" by (rule keyed_foldl) (simp add: keyed_def)
  then have "original t @ suggested t = original u @ suggested u"
    using mem by (auto simp: keyed_def list_all_iff)
  moreover have "confidence u = High" using le assms(2) confidence_High by simp
  ultimately show ?thesis using mem by force
qed

text \<open>
  What \<open>detectExportNameTypos\<close> returns, against the rule of its loop. Every
  high-confidence typo it returns is an export name and a name imported from the file
  that meet the rule: the similarity of the two names is below 0.5 and the similarity
  of the imported name and the base name of the file is above 0.7.
\<close>

lemma detectExportNameTypos_sound:
  assumes "t \<in> set (detectExportNameTypos content0 filePath allFiles)"
    and "confidence t = High"
  shows "\<exists>decl \<in> set (findExports content0).
         \<exists>attempt \<in> set (findImportAttempts filePath allFiles).
         \<exists>importedName \<in> set (importedNames attempt).
           t = highTypo (basenameWithout filePath (extname filePath)) decl attempt importedName \<and>
           stringSimilarity (exp_name decl) importedName < 1 / 2 \<and>
           stringSimilarity importedName (basenameWithout filePath (extname filePath)) > 7 / 10"
proof -
  let ?f = "basenameWithout filePath (extname filePath)"
  let ?flagged = "flagTypos ?f (findExports content0) (findImportAttempts filePath allFiles)"
  have "t \<in> snd ` set (foldl keepBest [] ?flagged)"
    using assms(1) by (auto simp: detectExportNameTypos_def Let_def split: if_splits)
  then have "t \<in> set ?flagged" using foldl_keepBest_subset [of "[]" ?flagged] by auto
  then show ?thesis
    using assms(2) flagTypos_high [of t ?f "findExports content0" "findImportAttempts filePath allFiles"]
    by blast
qed

text \<open>
  In the other direction, a pair that meets the rule is represented in the result by a
  high-confidence typo stored under the same key, the concatenation of the two names.
\<close>

lemma detectExportNameTypos_key:
  assumes "decl \<in> set (findExports content0)"
    and "attempt \<in> set (findImportAttempts filePath allFiles)"
    and "importedName \<in> set (importedNames attempt)"
    and "stringSimilarity (exp_name decl) importedName < 1 / 2"
    and "stringSimilarity importedName (basenameWithout filePath (extname filePath)) > 7 / 10"
  shows "\<exists>t \<in> set (detectExportNameTypos content0 filePath allFiles).
           confidence t = High \<and> original t @ suggested t = exp_name decl @ importedName"
proof -
  let ?f = "basenameWithout filePath (extname filePath)"
  let ?flagged = "flagTypos ?f (findExports content0) (findImportAttempts filePath allFiles)"
  let ?t = "highTypo ?f decl attempt importedName"
  have c: "confidence ?t = High" by (simp add: highTypo_def)
  have "?t \<in> set ?flagged"
    using assms c flagTypos_high [of ?t ?f "findExports content0" "findImportAttempts filePath allFiles"]
    by blast
  from keepBest_high [OF this c] obtain u where "u \<in> snd ` set (foldl keepBest [] ?flagged)"
    "confidence u = High" "original u @ suggested u = original ?t @ suggested ?t" by blast
  moreover have "findExports content0 \<noteq> []" using assms(1) by auto
  ultimately show ?thesis
    by (auto simp: detectExportNameTypos_def Let_def highTypo_def intro!: bexI [of _ u])
qed

text \<open>
  So the pair itself is returned whenever no other export name and imported name of the
  file concatenate to the same key.
\<close>

lemma detectExportNameTypos_pair:
  assumes "decl \<in> set (findExports content0)"
    and "attempt \<in> set (findImportAttempts filePath allFiles)"
    and "importedName \<in> set (importedNames attempt)"
    and "stringSimilarity (exp_name decl) importedName < 1 / 2"
    and "stringSimilarity importedName (basenameWithout filePath (extname filePath)) > 7 / 10"
    and apart: "\<And>decl' attempt' importedName'.
        decl' \<in> set (findExports content0) \<Longrightarrow>
        attempt' \<in> set (findImportAttempts filePath allFiles) \<Longrightarrow>
        importedName' \<in> set (importedNames attempt') \<Longrightarrow>
        exp_name decl' @ importedName' = exp_name decl @ importedName \<Longrightarrow>
        exp_name decl' = exp_name decl"
  shows "\<exists>t \<in> set (detectExportNameTypos content0 filePath allFiles).
           confidence t = High \<and> original t = exp_name decl \<and> suggested t = importedName"
proof -
  from detectExportNameTypos_key [OF assms(1-5)] obtain t
    where t: "t \<in> set (detectExportNameTypos content0 filePath allFiles)"
      and high: "confidence t = High"
      and key: "original t @ suggested t = exp_name decl @ importedName" by blast
  from detectExportNameTypos_sound [OF t high] obtain decl' attempt' importedName'
    where "decl' \<in> set (findExports content0)"
      "attempt' \<in> set (findImportAttempts filePath allFiles)"
      "importedName' \<in> set (importedNames attempt')"
      "t = highTypo (basenameWithout filePath (extname filePath)) decl' attempt' importedName'"
    by blast
  then have "original t = exp_name decl" using apart key by (simp add: highTypo_def)
  then show ?thesis using t high key by auto
qed

lemma userService_fileName:
  "basenameWithout ''src/UserService.js'' (extname ''src/UserService.js'') = ''UserService''"
  by code_simp

text \<open>
  C9 fails on the list that \<open>detectExportNameTypos\<close> returns. The file
  \<open>src/UserService.js\<close> exports \<open>get\<close> and \<open>getI\<close>, and another file imports
  \<open>IUserService\<close> and \<open>UserService\<close> from it. All four pairs meet the rule. The pairs
  \<open>get\<close>, \<open>IUserService\<close> and \<open>getI\<close>, \<open>UserService\<close> have the same key
  \<open>getIUserService\<close>, because the key is the concatenation of the two names with
  nothing between them; the removal of duplicates keeps the first and drops the second,
  which is no duplicate. The list returned has three typos and none of them corrects
  \<open>getI\<close> to \<open>UserService\<close>.
\<close>

theorem detectExportNameTypos_drops_pair:
  "map exp_name (findExports userService) = [''get'', ''getI''] \<and>
   map importedNames (findImportAttempts ''src/UserService.js'' [userImporter])
     = [[''IUserService'', ''UserService'']] \<and>
   stringSimilarity ''getI'' ''UserService'' < 1 / 2 \<and>
   stringSimilarity ''UserService'' ''UserService'' > 7 / 10 \<and>
   ''get'' @ ''IUserService'' = ''getI'' @ ''UserService'' \<and>
   map (\<lambda>t. (original t, suggested t, confidence t))
       (flagTypos ''UserService'' (findExports userService)
          (findImportAttempts ''src/UserService.js'' [userImporter]))
     = [(''get'', ''IUserService'', High), (''get'', ''UserService'', Medium),
        (''get'', ''UserService'', High), (''get'', ''UserService'', Medium),
        (''getI'', ''IUserService'', High), (''getI'', ''UserService'', High)] \<and>
   map (\<lambda>t. (original t, suggested t, confidence t))
       (detectExportNameTypos userService ''src/UserService.js'' [userImporter])
     = [(''get'', ''IUserService'', High), (''get'', ''UserService'', High),
        (''getI'', ''IUserService'', High)]"
  by code_simp

text \<open>
  C10. The result of \<open>semanticFix\<close> has \<open>shouldCommit\<close> exactly when it has
  \<open>fixed\<close>, and when it has not, its content is the content that was passed in.
\<close>

theorem semanticFix_consistent:
  "sr_shouldCommit (semanticFix content0 filePath allFiles) = sr_fixed (semanticFix content0 filePath allFiles) \<and>
   (\<not> sr_fixed (semanticFix content0 filePath allFiles) \<longrightarrow>
      sr_content (semanticFix content0 filePath allFiles) = content0)"
  by (simp add: semanticFix_def Let_def)

theorem semanticFix_consistent_witness:
  "\<not> sr_fixed (semanticFix pdfService ''src/PDFService.js'' [importer]) \<and>
   sr_content (semanticFix pdfService ''src/PDFService.js'' [importer]) = pdfService \<and>
   sr_fixed (semanticFix pdfConst ''src/PDFService.js'' [importer]) \<and>
   sr_shouldCommit (semanticFix pdfConst ''src/PDFService.js'' [importer])"
proof -
  have u: "\<not> sr_fixed (semanticFix pdfService ''src/PDFService.js'' [importer])" by code_simp
  have c: "sr_fixed (semanticFix pdfConst ''src/PDFService.js'' [importer])" by code_simp
  show ?thesis
    using semanticFix_consistent [of pdfService "''src/PDFService.js''" "[importer]"]
      semanticFix_consistent [of pdfConst "''src/PDFService.js''" "[importer]"] u c
    by simp
qed

subsection \<open>Graph consistency\<close>

lemma update_fresh: "k \<notin> fst ` set m \<Longrightarrow> AList.update k v m = m @ [(k, v)]"
  by (induction m) auto

lemma foldl_addSymbol:
  "distinct (map fst tbl @ map (\<lambda>s. symbolId p (sym_name s)) syms) \<Longrightarrow>
   foldl (addSymbol p) tbl syms = tbl @ map (\<lambda>s. (symbolId p (sym_name s), graphSymbol p s)) syms"
proof (induction syms arbitrary: tbl)
  case Nil
  show ?case by simp
next
  case (Cons s syms)
  have fresh: "symbolId p (sym_name s) \<notin> fst ` set tbl" using Cons.prems by auto
  have step: "addSymbol p tbl s = tbl @ [(symbolId p (sym_name s), graphSymbol p s)]"
    unfolding addSymbol_def by (rule update_fresh [OF fresh])
  have "distinct (map fst (tbl @ [(symbolId p (sym_name s), graphSymbol p s)])
          @ map (\<lambda>s. symbolId p (sym_name s)) syms)"
    using Cons.prems by auto
  from Cons.IH [OF this] show ?case by (simp add: step)
qed

lemma analyzeFile_fail:
  "parse f = Inl err \<Longrightarrow> analyzeFile parse f g = Inl err"
  by (simp add: analyzeFile_def)

lemma analyzeFile_symbols:
  assumes "distinct (map fst (symbols g) @ map fst (fileEntries parse f))"
  shows "symbols (case analyzeFile parse f g of Inl err \<Rightarrow> g | Inr g' \<Rightarrow> g')
         = symbols g @ fileEntries parse f"
proof (cases "parse f")
  case (Inl err)
  then show ?thesis by (simp add: analyzeFile_def fileEntries_def)
next
  case (Inr r)
  obtain syms fx where r: "r = (syms, fx)" by (cases r) auto
  have "distinct (map fst (symbols g) @ map (\<lambda>s. symbolId (cf_path f) (sym_name s)) syms)"
    using assms Inr r by (simp add: fileEntries_def comp_def)
  from foldl_addSymbol [OF this] show ?thesis
    using Inr r by (simp add: analyzeFile_def fileEntries_def)
qed

lemma analyzeFile_files:
  assumes "cf_path f \<notin> fst ` set (files g)"
  shows "files (case analyzeFile parse f g of Inl err \<Rightarrow> g | Inr g' \<Rightarrow> g')
         = files g @ fileRows parse f"
proof (cases "parse f")
  case (Inl err)
  then show ?thesis by (simp add: analyzeFile_def fileRows_def)
next
  case (Inr r)
  obtain syms fx where r: "r = (syms, fx)" by (cases r) auto
  show ?thesis
    using Inr r update_fresh [OF assms] by (simp add: analyzeFile_def fileRows_def)
qed

lemma analyzeAll_symbols:
  "distinct (map fst (symbols g) @ symbolIds parse fs) \<Longrightarrow>
   symbols (analyzeAll parse fs g) = symbols g @ concat (map (fileEntries parse) fs)"
proof (induction fs arbitrary: g)
  case Nil
  show ?case by (simp add: analyzeAll_def)
next
  case (Cons f fs)
  let ?g = "case analyzeFile parse f g of Inl err \<Rightarrow> g | Inr g' \<Rightarrow> g'"
  have d1: "distinct (map fst (symbols g) @ map fst (fileEntries parse f))"
    using Cons.prems by (auto simp: symbolIds_def)
  have s1: "symbols ?g = symbols g @ fileEntries parse f"
    by (rule analyzeFile_symbols [OF d1])
  have "distinct (map fst (symbols ?g) @ symbolIds parse fs)"
    using Cons.prems by (auto simp: s1 symbolIds_def)
  from Cons.IH [OF this] have "symbols (analyzeAll parse fs ?g)
      = symbols ?g @ concat (map (fileEntries parse) fs)" .
  then show ?case by (simp add: s1 analyzeAll_def)
qed

lemma fst_fileRows: "fst ` set (fileRows parse f) \<subseteq> {cf_path f}"
  by (auto simp: fileRows_def split: sum.splits)

lemma analyzeAll_files:
  "distinct (map fst (files g) @ map cf_path fs) \<Longrightarrow>
   files (analyzeAll parse fs g) = files g @ concat (map (fileRows parse) fs)"
proof (induction fs arbitrary: g)
  case Nil
  show ?case by (simp add: analyzeAll_def)
next
  case (Cons f fs)
  let ?g = "case analyzeFile parse f g of Inl err \<Rightarrow> g | Inr g' \<Rightarrow> g'"
  have fresh: "cf_path f \<notin> fst ` set (files g)" using Cons.prems by auto
  have s1: "files ?g = files g @ fileRows parse f"
    by (rule analyzeFile_files [OF fresh])
  have "distinct (map fst (files ?g) @ map cf_path fs)"
    using Cons.prems by (auto simp: s1 fileRows_def split: sum.splits)
  from Cons.IH [OF this] have "files (analyzeAll parse fs ?g)
      = files ?g @ concat (map (fileRows parse) fs)" .
  then show ?case by (simp add: s1 analyzeAll_def)
qed

lemma fileEntries_file: "(i, s) \<in> set (fileEntries parse f) \<Longrightarrow> sym_file s = cf_path f"
  by (auto simp: fileEntries_def graphSymbol_def split: sum.splits)

lemma count_other_file:
  "cf_path f \<noteq> p \<Longrightarrow> filter (\<lambda>(i, s). sym_file s = p) (fileEntries parse f) = []"
  by (auto simp: filter_empty_conv dest: fileEntries_file)

lemma count_same_file:
  "filter (\<lambda>(i, s). sym_file s = cf_path f) (fileEntries parse f) = fileEntries parse f"
  by (auto simp: filter_id_conv dest: fileEntries_file)

lemma count_entries:
  "distinct (map cf_path fs) \<Longrightarrow> f \<in> set fs \<Longrightarrow>
   length (filter (\<lambda>(i, s). sym_file s = cf_path f) (concat (map (fileEntries parse) fs)))
   = length (fileEntries parse f)"
proof (induction fs)
  case Nil
  then show ?case by simp
next
  case (Cons g fs)
  show ?case
  proof (cases "g = f")
    case True
    have "\<forall>h \<in> set fs. cf_path h \<noteq> cf_path f" using Cons.prems(1) True by (auto simp: image_iff)
    then have "filter (\<lambda>(i, s). sym_file s = cf_path f) (concat (map (fileEntries parse) fs)) = []"
      by (induction fs) (auto simp: count_other_file)
    then show ?thesis using True by (simp add: count_same_file)
  next
    case False
    then have "f \<in> set fs" and "cf_path g \<noteq> cf_path f" using Cons.prems by auto
    then show ?thesis using Cons by (simp add: count_other_file)
  qed
qed

lemma lookup_rows:
  "distinct (map cf_path fs) \<Longrightarrow> f \<in> set fs \<Longrightarrow> parse f = Inr (syms, fx) \<Longrightarrow>
   map_of (concat (map (fileRows parse) fs)) (cf_path f) = Some (fileRecordOf f syms)"
proof (induction fs)
  case Nil
  then show ?case by simp
next
  case (Cons g fs)
  show ?case
  proof (cases "g = f")
    case True
    then show ?thesis using Cons.prems by (simp add: fileRows_def)
  next
    case False
    then have "f \<in> set fs" and "cf_path g \<noteq> cf_path f" using Cons.prems by auto
    then show ?thesis using Cons by (auto simp: fileRows_def split: sum.splits)
  qed
qed

text \<open>
  C3, as stated, fails: \<open>symbolCount\<close> is the length of the extracted list, while the
  symbol table is keyed by \<open>path::name\<close> and a second symbol of the same name replaces
  the first. The file below has \<open>symbolCount = 2\<close> and one symbol in the table.
\<close>

theorem buildSymbolGraph_consistent_counterexample:
  "\<not> graphConsistent (buildSymbolGraph twoFoo [fooFile])"
  by code_simp

text \<open>
  C3, amended. When every path is analysed once and the symbol ids \<open>path::name\<close> of
  the run are pairwise distinct, every symbol's file has a record whose \<open>symbolCount\<close>
  equals the number of symbols of the graph with that file.
\<close>

theorem buildSymbolGraph_consistent:
  assumes paths: "distinct (map cf_path codeFiles)"
    and ids: "distinct (symbolIds parse codeFiles)"
  shows "graphConsistent (buildSymbolGraph parse codeFiles)"
proof -
  let ?init = "\<lparr>symbols = [], files = [], edges = [], syntaxFixes = [],
                meta_totalSymbols = 0, meta_totalFiles = length codeFiles\<rparr>"
  let ?g = "analyzeAll parse codeFiles ?init"
  let ?G = "buildSymbolGraph parse codeFiles"
  have syms: "symbols ?G = concat (map (fileEntries parse) codeFiles)"
    using analyzeAll_symbols [where g = ?init and fs = codeFiles and parse = parse] ids
    by (simp add: buildSymbolGraph_def serializeGraph_def Let_def)
  have fls: "files ?G = concat (map (fileRows parse) codeFiles)"
    using analyzeAll_files [where g = ?init and fs = codeFiles and parse = parse] paths
    by (simp add: buildSymbolGraph_def serializeGraph_def Let_def)
  have "case map_of (files ?G) (sym_file s) of None \<Rightarrow> False
          | Some r \<Rightarrow> symbolCount r = symbolsOfFile ?G (sym_file s)"
    if mem: "(i, s) \<in> set (symbols ?G)" for i s
  proof -
    from mem syms obtain f where f: "f \<in> set codeFiles" and e: "(i, s) \<in> set (fileEntries parse f)"
      by auto
    from e obtain syms' fx where ex: "parse f = Inr (syms', fx)"
      by (cases "parse f") (auto simp: fileEntries_def)
    have sf: "sym_file s = cf_path f" using e by (rule fileEntries_file)
    have "map_of (files ?G) (cf_path f) = Some (fileRecordOf f syms')"
      using lookup_rows [where parse = parse, OF paths f ex] fls by simp
    moreover have "symbolsOfFile ?G (cf_path f) = length syms'"
      using count_entries [OF paths f, of parse] ex
      by (simp add: symbolsOfFile_def syms fileEntries_def)
    ultimately show ?thesis by (simp add: sf fileRecordOf_def)
  qed
  then show ?thesis unfolding graphConsistent_def list_all_iff by auto
qed

theorem buildSymbolGraph_consistent_witness:
  "distinct (map cf_path [fooFile]) \<and> distinct (symbolIds fooBar [fooFile]) \<and>
   graphConsistent (buildSymbolGraph fooBar [fooFile])"
proof -
  have p: "distinct (map cf_path [fooFile])" by simp
  have i: "distinct (symbolIds fooBar [fooFile])"
    by (simp add: symbolIds_def fileEntries_def fooBar_def fooFile_def sym_def symbolId_def)
  show ?thesis using buildSymbolGraph_consistent [OF p i] p i by simp
qed

subsection \<open>Context compaction\<close>

text \<open>
  C4, as stated, fails: a context within the token budget is returned unchanged, whatever
  its size. Six files and the default budget of 10000 tokens give back six files.
\<close>

theorem createCompactContext_caps_counterexample:
  "\<not> withinCaps (createCompactContext showTenths sixFiles 10000)"
  by code_simp

text \<open>
  C4, amended. When the estimate exceeds the budget the result is within the caps (at most
  5 files, 20 symbols, 10 dependencies, 2 snippets per file); when it does not, the
  result is the input itself.
\<close>

theorem createCompactContext_caps:
  "(maxTokens < int (estimateTokens (formatContextForAI toPercent context)) \<longrightarrow>
      withinCaps (createCompactContext toPercent context maxTokens)) \<and>
   (int (estimateTokens (formatContextForAI toPercent context)) \<le> maxTokens \<longrightarrow>
      createCompactContext toPercent context maxTokens = context)"
  by (auto simp: createCompactContext_def withinCaps_def compactFile_def list_all_iff
      split: option.splits dest: in_set_takeD)

theorem createCompactContext_caps_witness:
  "100 < int (estimateTokens (formatContextForAI showTenths sixFiles)) \<and>
   withinCaps (createCompactContext showTenths sixFiles 100) \<and>
   length (relevantFiles (createCompactContext showTenths sixFiles 100)) = 5"
proof -
  have over: "100 < int (estimateTokens (formatContextForAI showTenths sixFiles))"
    by code_simp
  have five: "length (relevantFiles (createCompactContext showTenths sixFiles 100)) = 5"
    by code_simp
  show ?thesis using createCompactContext_caps [of 100 showTenths sixFiles] over five by simp
qed

subsection \<open>Semantic search\<close>

lemma scoreAll_length: "scoreAll normOf ratio q items = Inr rs \<Longrightarrow> length rs = length items"
  by (induction items arbitrary: rs) (auto split: sum.splits)

lemma scoreItem_stripped: "scoreItem normOf ratio q item = Inr r \<Longrightarrow> embedding r = None"
  by (auto simp: scoreItem_def split: option.splits sum.splits)

lemma scoreAll_stripped:
  "scoreAll normOf ratio q items = Inr rs \<Longrightarrow> r \<in> set rs \<Longrightarrow> embedding r = None"
  by (induction items arbitrary: rs) (auto split: sum.splits dest: scoreItem_stripped)

lemma scoreAll_returns: "comparable q items \<Longrightarrow> \<exists>rs. scoreAll normOf ratio q items = Inr rs"
  by (induction items)
    (auto simp: comparable_def scoreItem_def cosineSimilarity_def split: option.splits)

lemma scoreItem_similarity:
  "scoreItem normOf ratio q item = Inr r \<Longrightarrow>
   \<exists>v. embedding item = Some v \<and> cosineSimilarity normOf ratio q v = Inr (similarity r)"
  by (auto simp: scoreItem_def split: option.splits sum.splits)

lemma scoreAll_similarity:
  "scoreAll normOf ratio q items = Inr rs \<Longrightarrow> r \<in> set rs \<Longrightarrow>
   \<exists>item \<in> set items. \<exists>v. embedding item = Some v \<and>
      cosineSimilarity normOf ratio q v = Inr (similarity r)"
proof (induction items arbitrary: rs)
  case Nil
  then show ?case by simp
next
  case (Cons item items)
  from Cons.prems(1) obtain r0 rs0 where r0: "scoreItem normOf ratio q item = Inr r0"
    and rs0: "scoreAll normOf ratio q items = Inr rs0" and rs: "rs = r0 # rs0"
    by (auto split: sum.splits)
  show ?case
  proof (cases "r = r0")
    case True
    then show ?thesis using scoreItem_similarity [OF r0] by auto
  next
    case False
    then have "r \<in> set rs0" using Cons.prems(2) rs by simp
    then show ?thesis using Cons.IH [OF rs0] by auto
  qed
qed

lemma set_insertBySimilarity: "set (insertBySimilarity x ys) = insert x (set ys)"
  by (induction ys) auto

lemma length_insertBySimilarity: "length (insertBySimilarity x ys) = Suc (length ys)"
  by (induction ys) auto

lemma bySimilarity_Num:
  "similarity a = Num x \<Longrightarrow> similarity b = Num y \<Longrightarrow> bySimilarity a b < 0 \<longleftrightarrow> y < x"
  by (simp add: bySimilarity_def)

lemma notBelow_Num: "notBelow a b \<longleftrightarrow> (\<exists>x y. a = Num x \<and> b = Num y \<and> y \<le> x)"
  by (cases a; cases b) simp_all

lemma descending_insert:
  assumes "similarity x \<noteq> NaN" and "\<forall>y \<in> set ys. similarity y \<noteq> NaN" and "descending ys"
  shows "descending (insertBySimilarity x ys)"
  using assms
proof (induction ys)
  case Nil
  then show ?case by (simp add: descending_def)
next
  case (Cons y ys)
  obtain a where a: "similarity x = Num a" using Cons.prems(1) by (cases "similarity x") simp_all
  obtain b where b: "similarity y = Num b" using Cons.prems(2) by (cases "similarity y") simp_all
  have tl: "descending ys" using Cons.prems(3) by (simp add: descending_def)
  have rest: "\<forall>z \<in> set ys. notBelow (Num b) (similarity z)"
    using Cons.prems(3) b by (simp add: descending_def)
  show ?case
  proof (cases "a < b")
    case True
    have "descending (insertBySimilarity x ys)" using Cons.IH Cons.prems tl by simp
    moreover have "\<forall>z \<in> set (insertBySimilarity x ys). notBelow (Num b) (similarity z)"
      using rest True a by (auto simp: set_insertBySimilarity)
    ultimately show ?thesis
      using True bySimilarity_Num [OF b a] b by (simp add: descending_def)
  next
    case False
    have "\<forall>z \<in> set ys. notBelow (Num a) (similarity z)"
    proof
      fix z assume "z \<in> set ys"
      then have "notBelow (Num b) (similarity z)" using rest by blast
      then show "notBelow (Num a) (similarity z)" using False by (auto simp: notBelow_Num)
    qed
    then show ?thesis
      using False bySimilarity_Num [OF b a] a b Cons.prems(3) by (simp add: descending_def)
  qed
qed

lemma set_sortBySimilarity: "set (sortBySimilarity rs) = set rs"
  by (induction rs) (auto simp: sortBySimilarity_def set_insertBySimilarity)

lemma length_sortBySimilarity: "length (sortBySimilarity rs) = length rs"
  by (induction rs) (auto simp: sortBySimilarity_def length_insertBySimilarity)

lemma descending_sortBySimilarity:
  "\<forall>r \<in> set rs. similarity r \<noteq> NaN \<Longrightarrow> descending (sortBySimilarity rs)"
proof (induction rs)
  case Nil
  show ?case by (simp add: sortBySimilarity_def descending_def)
next
  case (Cons r rs)
  have "descending (insertBySimilarity r (sortBySimilarity rs))"
    using Cons descending_insert [of r "sortBySimilarity rs"] by (simp add: set_sortBySimilarity)
  then show ?case by (simp add: sortBySimilarity_def)
qed

lemma descending_take: "descending rs \<Longrightarrow> descending (take k rs)"
  unfolding descending_def by (metis append_take_drop_id sorted_wrt_append)

lemma descending_sliceTo: "descending rs \<Longrightarrow> descending (sliceTo k rs)"
  by (simp add: sliceTo_def descending_take)

lemma set_sliceTo: "set (sliceTo k rs) \<subseteq> set rs"
  by (auto simp: sliceTo_def dest: in_set_takeD)

lemma length_sliceTo: "length (sliceTo k rs) \<le> length rs"
  by (simp add: sliceTo_def nat_le_iff)

lemma length_sliceTo_bound: "0 \<le> k \<Longrightarrow> int (length (sliceTo k rs)) \<le> k"
  by (simp add: sliceTo_def)

lemma semanticSearch_returns:
  "generateEmbedding query = Inr q \<Longrightarrow> comparable q (embeddings index) \<Longrightarrow>
   \<exists>results. semanticSearch generateEmbedding normOf ratio index query topK = Inr results"
  using scoreAll_returns [of q "embeddings index" normOf ratio]
  by (auto simp: semanticSearch_def)

text \<open>
  C6, as stated, fails in two ways. A similarity can be \<open>NaN\<close>; the comparator is then
  zero against every other record and the list stays as it was, here with a score of 1
  in front of a score of 7. And a negative \<open>topK\<close> makes \<open>slice\<close> drop records from
  the end: of three records, \<open>topK = -1\<close> returns two, which is more than \<open>topK\<close>.
\<close>

theorem semanticSearch_sorted_bounded_counterexample:
  "map_sum id (map similarity) (semanticSearch demoEmbedding demoNorm demoRatio overflowIndex ''query'' 10)
     = Inr [Num 1, NaN, Num 7] \<and>
   map_sum id descending (semanticSearch demoEmbedding demoNorm demoRatio overflowIndex ''query'' 10)
     = Inr False \<and>
   map_sum id length (semanticSearch demoEmbedding demoNorm demoRatio demoIndex ''query'' (- 1))
     = Inr 2 \<and>
   \<not> int 2 \<le> - 1"
  by (simp add: semanticSearch_def demoEmbedding_def demoNorm_def demoRatio_def overflowIndex_def
      demoIndex_def demoRecord_def overflowing_def scoreItem_def cosineSimilarity_def dotProduct_def
      sortBySimilarity_def bySimilarity_def sliceTo_def descending_def)

text \<open>
  C6, amended. Whenever \<open>semanticSearch\<close> returns a list, the list has at most as many
  elements as the index stores records and every returned record has its vector removed;
  for \<open>topK\<close> of 0 or more it has at most \<open>topK\<close> elements; and when none of the
  similarities computed for the stored vectors is \<open>NaN\<close> it is sorted by descending
  similarity. (The search returns a list whenever the query is embedded and every stored
  vector has the query vector's length, lemma \<open>semanticSearch_returns\<close>; otherwise it
  throws.)
\<close>

theorem semanticSearch_sorted_bounded:
  assumes "semanticSearch generateEmbedding normOf ratio index query topK = Inr results"
  shows "length results \<le> length (embeddings index) \<and>
         (\<forall>r \<in> set results. embedding r = None) \<and>
         (0 \<le> topK \<longrightarrow> int (length results) \<le> topK) \<and>
         ((\<forall>q item v. generateEmbedding query = Inr q \<and> item \<in> set (embeddings index) \<and>
              embedding item = Some v \<longrightarrow> cosineSimilarity normOf ratio q v \<noteq> Inr NaN)
          \<longrightarrow> descending results)"
proof -
  from assms obtain q rs where q: "generateEmbedding query = Inr q"
    and rs: "scoreAll normOf ratio q (embeddings index) = Inr rs"
    and res: "results = sliceTo topK (sortBySimilarity rs)"
    by (auto simp: semanticSearch_def split: sum.splits)
  have "length results \<le> length (embeddings index)"
    using res scoreAll_length [OF rs] length_sliceTo [of topK "sortBySimilarity rs"]
    by (simp add: length_sortBySimilarity)
  moreover have "\<forall>r \<in> set results. embedding r = None"
  proof
    fix r assume "r \<in> set results"
    then have "r \<in> set rs" using res set_sliceTo [of topK "sortBySimilarity rs"]
      by (auto simp: set_sortBySimilarity)
    then show "embedding r = None" using scoreAll_stripped [OF rs] by blast
  qed
  moreover have "0 \<le> topK \<longrightarrow> int (length results) \<le> topK"
    using res length_sliceTo_bound by blast
  moreover have "descending results"
    if numbers: "\<forall>q item v. generateEmbedding query = Inr q \<and> item \<in> set (embeddings index) \<and>
              embedding item = Some v \<longrightarrow> cosineSimilarity normOf ratio q v \<noteq> Inr NaN"
  proof -
    have "\<forall>r \<in> set rs. similarity r \<noteq> NaN"
    proof
      fix r assume "r \<in> set rs"
      then obtain item v where "item \<in> set (embeddings index)" "embedding item = Some v"
        "cosineSimilarity normOf ratio q v = Inr (similarity r)"
        using scoreAll_similarity [OF rs] by blast
      then show "similarity r \<noteq> NaN" using numbers q by auto
    qed
    then show ?thesis using res descending_sliceTo descending_sortBySimilarity by blast
  qed
  ultimately show ?thesis by blast
qed

theorem semanticSearch_sorted_bounded_witness:
  "map_sum id (map symbolName) (semanticSearch demoEmbedding demoNorm demoRatio demoIndex ''query'' 2)
     = Inr [''h'', ''g''] \<and>
   map_sum id (map similarity) (semanticSearch demoEmbedding demoNorm demoRatio demoIndex ''query'' 2)
     = Inr [Num 7, Num 4] \<and>
   map_sum id descending (semanticSearch demoEmbedding demoNorm demoRatio demoIndex ''query'' 2)
     = Inr True \<and>
   map_sum id (\<lambda>results. int (length results) \<le> 2)
     (semanticSearch demoEmbedding demoNorm demoRatio demoIndex ''query'' 2) = Inr True"
proof -
  obtain results where run: "semanticSearch demoEmbedding demoNorm demoRatio demoIndex ''query'' 2 = Inr results"
    using semanticSearch_returns [of demoEmbedding "''query''" "[1, 1]" demoIndex demoNorm demoRatio 2]
    by (auto simp: demoEmbedding_def comparable_def demoIndex_def demoRecord_def)
  have names: "map symbolName results = [''h'', ''g'']" "map similarity results = [Num 7, Num 4]"
    using run
    by (auto simp: semanticSearch_def demoEmbedding_def demoNorm_def demoRatio_def
        demoIndex_def demoRecord_def overflowing_def scoreItem_def cosineSimilarity_def dotProduct_def
        sortBySimilarity_def bySimilarity_def sliceTo_def)
  have numbers: "\<forall>q item v. demoEmbedding ''query'' = Inr q \<and> item \<in> set (embeddings demoIndex) \<and>
      embedding item = Some v \<longrightarrow> cosineSimilarity demoNorm demoRatio q v \<noteq> Inr NaN"
    by (auto simp: demoEmbedding_def demoIndex_def demoRecord_def cosineSimilarity_def
        demoNorm_def demoRatio_def overflowing_def)
  show ?thesis using semanticSearch_sorted_bounded [OF run] names numbers by (simp add: run)
qed

subsection \<open>Index storage\<close>

lemma deleteIndex_resolves: "fst (deleteIndex indexDir fs repoId) = Inr ()"
  by (simp add: deleteIndex_def Let_def split: sum.splits prod.splits)

lemma deleteIndex_missing:
  "fs (indexPath indexDir repoId) = None \<Longrightarrow> deleteIndex indexDir fs repoId = (Inr (), Info, fs)"
  by (simp add: deleteIndex_def deleteIndex_attempt_def fs_access_def Let_def)

text \<open>
  C7. \<open>deleteIndex\<close> never rejects, whatever the file system holds. When no index file
  exists for the repository it succeeds, logs at level info and leaves the file system as
  it was; and two consecutive calls for the same repository both succeed.
\<close>

theorem deleteIndex_total_idempotent:
  "fst (deleteIndex indexDir fs repoId) = Inr () \<and>
   (fs (indexPath indexDir repoId) = None \<longrightarrow>
      deleteIndex indexDir fs repoId = (Inr (), Info, fs)) \<and>
   fst (deleteIndex_twice indexDir fs repoId) = Inr () \<and>
   fst (snd (deleteIndex_twice indexDir fs repoId)) = Inr ()"
proof -
  obtain r1 l1 fs1 where d1: "deleteIndex indexDir fs repoId = (r1, l1, fs1)"
    by (cases "deleteIndex indexDir fs repoId") auto
  obtain r2 l2 fs2 where d2: "deleteIndex indexDir fs1 repoId = (r2, l2, fs2)"
    by (cases "deleteIndex indexDir fs1 repoId") auto
  have "r1 = Inr ()" using deleteIndex_resolves [of indexDir fs repoId] d1 by simp
  moreover have "r2 = Inr ()" using deleteIndex_resolves [of indexDir fs1 repoId] d2 by simp
  ultimately show ?thesis
    using d1 d2 deleteIndex_missing [of fs indexDir repoId]
    by (simp add: deleteIndex_twice_def)
qed

theorem deleteIndex_total_idempotent_witness:
  "Map.empty (indexPath ''data/indexes'' ''owner/repo'') = None \<and>
   deleteIndex ''data/indexes'' Map.empty ''owner/repo'' = (Inr (), Info, Map.empty) \<and>
   fst (deleteIndex_twice ''data/indexes'' Map.empty ''owner/repo'') = Inr ()"
  using deleteIndex_total_idempotent [of "''data/indexes''" Map.empty "''owner/repo''"]
  by simp

end
